theory Spec2Isabelle
  imports Complex_Main
begin

section \<open>Python values\<close>

text \<open>
  A Python \<^verbatim>\<open>str\<close> is a sequence of Unicode code points, and \<^verbatim>\<open>len\<close> counts code
  points; it is modelled as a list of code points (natural numbers). \<open>lit\<close> embeds
  an ASCII literal of the source.
\<close>

type_synonym str = "nat list"

definition lit :: "string \<Rightarrow> str" where
  "lit s = map of_char s"

text \<open>
  \<^verbatim>\<open>str.isspace\<close> of one code point, as CPython decides it: the ASCII controls
  \<open>0x09..0x0D\<close> and \<open>0x1C..0x1F\<close>, the space, and the Unicode white space beyond ASCII.
  \<^verbatim>\<open>s.strip()\<close> removes such code points at both ends.
\<close>

definition isspace :: "nat \<Rightarrow> bool" where
  "isspace c \<longleftrightarrow>
     (9 \<le> c \<and> c \<le> 13) \<or> (28 \<le> c \<and> c \<le> 32) \<or> c = 133 \<or> c = 160 \<or> c = 5760
     \<or> (8192 \<le> c \<and> c \<le> 8202) \<or> c = 8232 \<or> c = 8233 \<or> c = 8239 \<or> c = 8287
     \<or> c = 12288"

definition strip :: "str \<Rightarrow> str" where
  "strip s = rev (dropWhile isspace (rev (dropWhile isspace s)))"

text \<open>
  \<^verbatim>\<open>s.split(sep)\<close> for a separator of one code point cuts at every occurrence and keeps
  empty pieces; \<open>split_by\<close> is that cut for the code points a predicate selects.
  \<^verbatim>\<open>sep.join(ws)\<close> is \<open>join\<close>.
\<close>

fun split_by :: "(nat \<Rightarrow> bool) \<Rightarrow> str \<Rightarrow> str list" where
  "split_by sep [] = [[]]"
| "split_by sep (c # cs) =
     (if sep c then [] # split_by sep cs
      else (case split_by sep cs of
              [] \<Rightarrow> [[c]]
            | w # ws \<Rightarrow> (c # w) # ws))"

fun join :: "str \<Rightarrow> str list \<Rightarrow> str" where
  "join sep [] = []"
| "join sep [w] = w"
| "join sep (w # v # ws) = w @ sep @ join sep (v # ws)"

text \<open>JSON values, as \<^verbatim>\<open>json.loads\<close> returns them and \<^verbatim>\<open>json.dumps\<close> takes them.\<close>

datatype json =
    JNull
  | JBool bool
  | JInt int
  | JFloat real
  | JStr str
  | JList "json list"
  | JObj "(str \<times> json) list"

text \<open>Truth value of a JSON value, as Python's \<^verbatim>\<open>if v\<close>, \<^verbatim>\<open>not v\<close> and \<^verbatim>\<open>v or d\<close> take it.\<close>

fun truthy :: "json \<Rightarrow> bool" where
  "truthy JNull = False"
| "truthy (JBool b) = b"
| "truthy (JInt n) = (n \<noteq> 0)"
| "truthy (JFloat r) = (r \<noteq> 0)"
| "truthy (JStr s) = (s \<noteq> [])"
| "truthy (JList vs) = (vs \<noteq> [])"
| "truthy (JObj kvs) = (kvs \<noteq> [])"

text \<open>
  A \<^verbatim>\<open>dict\<close> with string keys is an association list; \<^verbatim>\<open>d.get(k)\<close> is \<open>map_of d k\<close>
  and \<^verbatim>\<open>d[k] = v\<close> is \<open>dict_set\<close>, which overwrites in place or appends.
\<close>

fun dict_set :: "'k \<Rightarrow> 'v \<Rightarrow> ('k \<times> 'v) list \<Rightarrow> ('k \<times> 'v) list" where
  "dict_set k v [] = [(k, v)]"
| "dict_set k v ((k', v') # kvs) = (if k' = k then (k, v) # kvs else (k', v') # dict_set k v kvs)"

text \<open>
  A \<^verbatim>\<open>UUID\<close> is represented by its canonical text, so \<^verbatim>\<open>str(u)\<close> is \<open>u\<close> itself. A
  \<^verbatim>\<open>datetime\<close> is the instant it denotes, in microseconds since the Unix epoch;
  conversions between time zones keep the instant.
\<close>

type_synonym uuid = str

type_synonym datetime = int

text \<open>The exceptions that leave the modelled functions.\<close>

datatype error =
    HTTPException nat
  | ValueError
  | SessionNotFound
  | UnboundLocalError
  | AttributeError
  | ZeroDivisionError
  | OverflowError
  | KeyError
  | DatabaseError

text \<open>
  The corpus as the retrieval statements see it: one row per embedding record \<open>me\<close>,
  joined with its user message \<open>u\<close> and, when there is one, its assistant message \<open>a\<close>
  (\<^verbatim>\<open>FROM message_embeddings me JOIN messages u ... LEFT JOIN messages a ...\<close>).
\<close>

record turn_rec =
  t_id :: uuid
  t_provider :: str
  t_model :: str
  t_user_message_id :: uuid
  t_assistant_message_id :: "uuid option"
  t_used_turn_summary :: bool
  t_created_at :: datetime
  t_conversation_id :: uuid
  t_user_create_time :: "datetime option"
  t_user_text :: "str option"
  t_assistant_text :: "str option"
  t_assistant_summary :: "str option"

text \<open>
  What the completion gateway returns, read as \<^verbatim>\<open>LLMOrchestrator\<close> reads it: a list of
  choices, each with an optional message; a message has an optional text and an
  optional list of tool calls; a tool call has an optional id, an optional function
  name and an optional argument string.
\<close>

record tool_call =
  tc_id :: "str option"
  tc_name :: "str option"
  tc_arguments :: "str option"

record assistant_message =
  am_content :: "str option"
  am_tool_calls :: "tool_call list option"

type_synonym completion = "assistant_message option list"

text \<open>
  The surroundings of the program:
  \<^item> the draws of \<^verbatim>\<open>uuid4()\<close> and the readings of the clock, each numbered in the order
    the program makes them;
  \<^item> the standard library: \<^verbatim>\<open>UUID(str(v))\<close>, \<^verbatim>\<open>str(v)\<close> and \<^verbatim>\<open>int(v)\<close> of a decoded JSON
    value, \<^verbatim>\<open>datetime.fromisoformat\<close> (read in UTC when the text names no zone) and
    \<^verbatim>\<open>json.loads\<close>, each \<open>None\<close> where it raises;
  \<^item> the embedding gateway behind \<^verbatim>\<open>embed_query\<close>, which returns the vector or raises
    \<^verbatim>\<open>HTTPException(502)\<close>;
  \<^item> the corpus and the distance \<^verbatim>\<open>me.vector <-> %s::vector\<close> the database computes
    between a row's vector and the literal of the query vector;
  \<^item> the completion gateway behind \<^verbatim>\<open>_complete\<close>: its reply to the request of each round
    of a run, or the \<^verbatim>\<open>HTTPException(502)\<close> raised when the call fails.
  A failing database connection is outside the model.
\<close>

record env =
  uuid4_at :: "nat \<Rightarrow> uuid"
  utcnow_at :: "nat \<Rightarrow> datetime"
  parse_uuid :: "json \<Rightarrow> uuid option"
  py_str :: "json \<Rightarrow> str"
  py_int :: "json \<Rightarrow> int option"
  fromisoformat :: "str \<Rightarrow> datetime option"
  json_loads :: "str \<Rightarrow> json option"
  embed :: "str \<Rightarrow> error + real list"
  vector_distance :: "real list \<Rightarrow> turn_rec \<Rightarrow> real"
  corpus :: "turn_rec list"
  complete_at :: "nat \<Rightarrow> error + completion"

section \<open>backend/api/retrieval.py\<close>

text \<open>
  A Python \<^verbatim>\<open>float\<close> is a number of the IEEE 754 binary64 format. A finite one is given
  here by the real number it denotes, and an operation on floats by the exact operation
  followed by \<open>round_double\<close>, which rounds a real to the nearest number \<open>m * 2 ^ q\<close> of the
  format (\<open>\<bar>m\<bar> \<le> 2 ^ 53\<close>, \<open>q \<ge> - 1074\<close>), a tie going to the even \<open>m\<close>. Infinities, NaN and
  the sign of zero are not represented, and \<open>round_double\<close> does not overflow: the
  properties of \<open>score_from_distance\<close> show that for a finite distance \<open>d \<ge> 0\<close> neither its
  sum nor its quotient leaves the finite range.

  \<open>log2_up n x\<close> counts the halvings that bring \<open>x \<ge> 1\<close> below 2, and \<open>log2_down n x\<close>
  the doublings that bring \<open>x < 1\<close> to 1 or above, at most \<open>n\<close> of them: for \<open>x\<close> in the
  range of the format they give the binary exponent of \<open>x\<close>.
\<close>

primrec log2_up :: "nat \<Rightarrow> real \<Rightarrow> nat" where
  "log2_up 0 x = 0"
| "log2_up (Suc n) x = (if 2 \<le> x then Suc (log2_up n (x / 2)) else 0)"

primrec log2_down :: "nat \<Rightarrow> real \<Rightarrow> nat" where
  "log2_down 0 x = 0"
| "log2_down (Suc n) x = (if x < 1 then Suc (log2_down n (2 * x)) else 0)"

text \<open>
  The exponent \<open>q\<close> of the spacing \<open>2 ^ q\<close> of the format at \<open>x > 0\<close>: 52 below the binary
  exponent of \<open>x\<close>, and \<open>- 1074\<close> in the subnormal range.
\<close>

definition quantum :: "real \<Rightarrow> int" where
  "quantum x =
     (if 1 \<le> x then int (log2_up 1024 x) - 52
      else max (- 1074) (- int (log2_down 1074 x) - 52))"

text \<open>The nearest integer, a tie going to the even one.\<close>

definition round_half_even :: "real \<Rightarrow> int" where
  "round_half_even x =
     (let f = \<lfloor>x\<rfloor>; r = x - of_int f
      in if r < 1 / 2 then f else if 1 / 2 < r then f + 1 else if even f then f else f + 1)"

definition round_double :: "real \<Rightarrow> real" where
  "round_double x =
     (if x = 0 then 0
      else (let q = 2 powi quantum \<bar>x\<bar>
            in sgn x * (of_int (round_half_even (\<bar>x\<bar> / q)) * q)))"

text \<open>The largest finite float, \<^verbatim>\<open>sys.float_info.max\<close>.\<close>

definition DBL_MAX :: real where
  "DBL_MAX = (2 ^ 53 - 1) * 2 ^ 971"

text \<open>
  \<^verbatim>\<open>def score_from_distance(distance: float) -> float: return 1.0 / (1.0 + distance)\<close>

  The sum and the quotient are float operations, each rounded. The distance is a finite
  float; the distances the function is called with are values of the operator \<^verbatim>\<open><->\<close>,
  which are not negative, so the sum is not zero (where Python's division raises
  \<^verbatim>\<open>ZeroDivisionError\<close>).
\<close>

definition score_from_distance :: "real \<Rightarrow> real" where
  "score_from_distance distance = round_double (1 / round_double (1 + distance))"

definition PROVIDER :: str where
  "PROVIDER = lit ''supermind''"

definition MODEL :: str where
  "MODEL = lit ''text-embedding-3-large''"

definition DEFAULT_TOP_K :: int where
  "DEFAULT_TOP_K = 100"

definition DEFAULT_TOP_N_SNIPPETS :: int where
  "DEFAULT_TOP_N_SNIPPETS = 10"

definition MAX_TOP_K :: int where
  "MAX_TOP_K = 1000"

definition MAX_TOP_N_SNIPPETS :: int where
  "MAX_TOP_N_SNIPPETS = 100"

definition MAX_BIN_DAYS :: int where
  "MAX_BIN_DAYS = 365"

definition MAX_SNIPPET_LEN :: nat where
  "MAX_SNIPPET_LEN = 400"

definition trim_snippet :: "str option \<Rightarrow> str option" where
  "trim_snippet text =
     (case text of
        None \<Rightarrow> None
      | Some t \<Rightarrow>
          (let t = strip t
           in if length t > MAX_SNIPPET_LEN then Some (take MAX_SNIPPET_LEN t) else Some t))"

text \<open>\<open>ensure_utc\<close> keeps the instant: it attaches or converts to the UTC zone.\<close>

definition ensure_utc :: "datetime option \<Rightarrow> datetime option" where
  "ensure_utc dt = (case dt of None \<Rightarrow> None | Some t \<Rightarrow> Some t)"

text \<open>
  The range of \<^verbatim>\<open>datetime\<close>: from \<open>0001-01-01T00:00:00\<close> to \<open>9999-12-31T23:59:59.999999\<close>
  UTC, in microseconds since the epoch. \<^verbatim>\<open>int(ts.timestamp())\<close> is the number of whole
  seconds, rounded towards zero (the float of \<^verbatim>\<open>timestamp()\<close> is read as the exact
  quotient). \<^verbatim>\<open>datetime.fromtimestamp(s, tz=utc)\<close> raises outside the range, and so do
  \<^verbatim>\<open>timedelta(seconds=n)\<close> beyond 999999999 days and \<^verbatim>\<open>dt + timedelta\<close> outside the range.
\<close>

definition DT_MIN :: datetime where
  "DT_MIN = - 62135596800000000"

definition DT_MAX :: datetime where
  "DT_MAX = 253402300799999999"

definition timestamp_seconds :: "datetime \<Rightarrow> int" where
  "timestamp_seconds ts = (if 0 \<le> ts then ts div 1000000 else - ((- ts) div 1000000))"

definition fromtimestamp :: "int \<Rightarrow> error + datetime" where
  "fromtimestamp seconds =
     (if DT_MIN \<le> seconds * 1000000 \<and> seconds * 1000000 \<le> DT_MAX
      then Inr (seconds * 1000000) else Inl ValueError)"

definition add_seconds :: "datetime \<Rightarrow> int \<Rightarrow> error + datetime" where
  "add_seconds dt seconds =
     (if \<bar>seconds div 86400\<bar> > 999999999 then Inl OverflowError
      else if DT_MIN \<le> dt + seconds * 1000000 \<and> dt + seconds * 1000000 \<le> DT_MAX
      then Inr (dt + seconds * 1000000) else Inl OverflowError)"

text \<open>
  \<^verbatim>\<open>bucket_start = int(ts_utc.timestamp()) // bin_seconds * bin_seconds\<close>; Python's \<^verbatim>\<open>//\<close> on
  integers is the floor division \<open>div\<close>, and raises on a zero divisor.
\<close>

definition bin_timestamp :: "datetime \<Rightarrow> int \<Rightarrow> error + datetime" where
  "bin_timestamp ts bin_seconds =
     (if bin_seconds = 0 then Inl ZeroDivisionError
      else fromtimestamp (timestamp_seconds ts div bin_seconds * bin_seconds))"

text \<open>
  The nearest-neighbour statement of both \<open>peek\<close> functions:
  \<^verbatim>\<open>SELECT ..., (me.vector <-> %s::vector) AS distance FROM ... WHERE me.provider = %s
  AND me.model = %s {where_clause} ORDER BY me.vector <-> %s::vector LIMIT %s\<close>.
  A comparison with a \<open>NULL\<close> create time is not true, and a negative \<open>LIMIT\<close> is an error
  of the database. The order among rows at equal distance is the database's to choose;
  the model keeps the corpus order there.
\<close>

definition search ::
    "env \<Rightarrow> real list \<Rightarrow> datetime option \<Rightarrow> datetime option \<Rightarrow> uuid option \<Rightarrow> int
     \<Rightarrow> error + (turn_rec \<times> real) list" where
  "search e embedding start_time end_time conversation_id top_k =
     (if top_k < 0 then Inl DatabaseError
      else Inr (take (nat top_k)
             (sort_key snd
                (map (\<lambda>t. (t, vector_distance e embedding t))
                   (filter (\<lambda>t. t_provider t = PROVIDER \<and> t_model t = MODEL
                        \<and> (case start_time of None \<Rightarrow> True
                            | Some s \<Rightarrow> (case t_user_create_time t of None \<Rightarrow> False
                                         | Some c \<Rightarrow> s \<le> c))
                        \<and> (case end_time of None \<Rightarrow> True
                            | Some s \<Rightarrow> (case t_user_create_time t of None \<Rightarrow> False
                                         | Some c \<Rightarrow> c \<le> s))
                        \<and> (case conversation_id of None \<Rightarrow> True
                            | Some c \<Rightarrow> t_conversation_id t = c))
                      (corpus e))))))"

text \<open>
  The loop over the rows, the same in \<^verbatim>\<open>backend.api.retrieval.peek\<close> and in
  \<^verbatim>\<open>RetrievalTools.peek\<close> but for the entry it appends, which is the parameter \<open>entry\<close>:
  \<^verbatim>\<open>
  for row in rows:
      user_create_time_utc = ensure_utc(user_create_time)
      if user_create_time_utc:
          bucket_start = bin_timestamp(user_create_time_utc, bin_seconds)
          buckets[bucket_start] = buckets.get(bucket_start, 0) + 1
      if len(matches) < max_matches:
          matches.append(...)
  \<close>
  A \<^verbatim>\<open>datetime\<close> is never falsy, so the test is one for \<open>None\<close>.
\<close>

fun peek_loop ::
    "(turn_rec \<times> real \<Rightarrow> 'p) \<Rightarrow> int \<Rightarrow> int \<Rightarrow> (turn_rec \<times> real) list
     \<Rightarrow> (datetime \<times> nat) list \<Rightarrow> 'p list \<Rightarrow> error + ((datetime \<times> nat) list \<times> 'p list)" where
  "peek_loop entry bin_seconds max_matches [] buckets matches = Inr (buckets, matches)"
| "peek_loop entry bin_seconds max_matches (row # rows) buckets matches =
     (case (case ensure_utc (t_user_create_time (fst row)) of
              None \<Rightarrow> Inr buckets
            | Some user_create_time_utc \<Rightarrow>
                (case bin_timestamp user_create_time_utc bin_seconds of
                   Inl err \<Rightarrow> Inl err
                 | Inr bucket_start \<Rightarrow>
                     Inr (dict_set bucket_start
                            ((case map_of buckets bucket_start of None \<Rightarrow> 0 | Some c \<Rightarrow> c) + 1)
                            buckets))) of
        Inl err \<Rightarrow> Inl err
      | Inr buckets' \<Rightarrow>
          peek_loop entry bin_seconds max_matches rows buckets'
            (if int (length matches) < max_matches then matches @ [entry row] else matches))"

record bucket =
  b_start :: datetime
  b_end :: datetime
  b_count :: nat

record histogram =
  h_bin_days :: int
  h_buckets :: "bucket list"
  h_total :: nat

text \<open>
  \<^verbatim>\<open>[HistogramBucket(start=start, end=start + timedelta(seconds=bin_seconds), count=count)
   for start, count in sorted(buckets.items(), key=lambda item: item[0])]\<close>
\<close>

fun bucket_list :: "int \<Rightarrow> (datetime \<times> nat) list \<Rightarrow> error + bucket list" where
  "bucket_list bin_seconds [] = Inr []"
| "bucket_list bin_seconds ((start, count) # items) =
     (case add_seconds start bin_seconds of
        Inl err \<Rightarrow> Inl err
      | Inr end \<Rightarrow>
          (case bucket_list bin_seconds items of
             Inl err \<Rightarrow> Inl err
           | Inr bs \<Rightarrow> Inr (\<lparr>b_start = start, b_end = end, b_count = count\<rparr> # bs)))"

definition histogram_buckets :: "int \<Rightarrow> (datetime \<times> nat) list \<Rightarrow> error + bucket list" where
  "histogram_buckets bin_seconds buckets = bucket_list bin_seconds (sort_key fst buckets)"

record match =
  mt_turn_id :: uuid
  mt_score :: real
  mt_distance :: real
  mt_user_message_id :: uuid
  mt_assistant_message_id :: "uuid option"
  mt_conversation_id :: uuid
  mt_create_time :: "datetime option"
  mt_user_snippet :: str
  mt_assistant_snippet :: "str option"

definition match_of :: "turn_rec \<times> real \<Rightarrow> match" where
  "match_of row =
     (let t = fst row;
          assistant_source =
            (if t_used_turn_summary t then t_assistant_summary t else t_assistant_text t)
      in \<lparr>mt_turn_id = t_id t,
          mt_score = score_from_distance (snd row),
          mt_distance = snd row,
          mt_user_message_id = t_user_message_id t,
          mt_assistant_message_id = t_assistant_message_id t,
          mt_conversation_id = t_conversation_id t,
          mt_create_time = ensure_utc (t_user_create_time t),
          mt_user_snippet = (case trim_snippet (t_user_text t) of None \<Rightarrow> [] | Some x \<Rightarrow> x),
          mt_assistant_snippet = trim_snippet assistant_source\<rparr>)"

record peek_response =
  pr_histogram :: histogram
  pr_matches :: "match list"

text \<open>
  The route \<^verbatim>\<open>GET /retrieval/peek\<close>. The bounds declared with \<^verbatim>\<open>Query(...)\<close> are checked by
  the framework before the function body runs; a request outside them is answered with
  status 422.
\<close>

definition api_peek ::
    "env \<Rightarrow> str \<Rightarrow> int \<Rightarrow> int \<Rightarrow> int \<Rightarrow> datetime option \<Rightarrow> datetime option \<Rightarrow> uuid option
     \<Rightarrow> error + peek_response" where
  "api_peek e query top_k top_n_snippets bin_days start_time end_time conversation_id =
     (if length query < 1 \<or> \<not> (0 < top_k \<and> top_k \<le> MAX_TOP_K)
         \<or> \<not> (0 < top_n_snippets \<and> top_n_snippets \<le> MAX_TOP_N_SNIPPETS)
         \<or> \<not> (0 < bin_days \<and> bin_days \<le> MAX_BIN_DAYS)
      then Inl (HTTPException 422)
      else if (case (start_time, end_time) of (Some s, Some t) \<Rightarrow> s > t | _ \<Rightarrow> False)
      then Inl (HTTPException 400)
      else
        (let start_time = ensure_utc start_time;
             end_time = ensure_utc end_time
         in case embed e query of
              Inl err \<Rightarrow> Inl err
            | Inr embedding \<Rightarrow>
                (let bin_seconds = bin_days * 86400
                 in case search e embedding start_time end_time conversation_id top_k of
                      Inl err \<Rightarrow> Inl err
                    | Inr rows \<Rightarrow>
                        (let max_matches = min top_n_snippets (int (length rows))
                         in case peek_loop match_of bin_seconds max_matches rows [] [] of
                              Inl err \<Rightarrow> Inl err
                            | Inr (buckets, matches) \<Rightarrow>
                                (case histogram_buckets bin_seconds buckets of
                                   Inl err \<Rightarrow> Inl err
                                 | Inr hb \<Rightarrow>
                                     Inr \<lparr>pr_histogram =
                                            \<lparr>h_bin_days = bin_days, h_buckets = hb,
                                             h_total = length rows\<rparr>,
                                          pr_matches = matches\<rparr>)))))"

section \<open>backend/models/sessions.py\<close>

text \<open>
  The tables the module reads and writes, with the columns its statements name. The
  connection is modelled by the database state \<open>db\<close>, passed in and returned; \<open>draws\<close>
  and \<open>ticks\<close> count the draws of \<^verbatim>\<open>uuid4()\<close> and the clock readings made so far. The
  column \<open>session_messages.created_at\<close> is not written by the module: it is filled by
  the table's default, taken to be the time of the insertion.
\<close>

record session_row =
  s_id :: uuid
  s_title :: "str option"
  s_created_at :: datetime
  s_updated_at :: datetime
  s_pinned :: bool
  s_archived :: bool
  s_metadata :: json

record conversation_row =
  c_id :: uuid
  c_title :: "str option"
  c_create_time :: datetime
  c_update_time :: datetime
  c_raw :: json

record message_row =
  m_id :: uuid
  m_conversation_id :: "uuid option"
  m_role :: str
  m_idx_in_conv :: int
  m_create_time :: "datetime option"
  m_update_time :: "datetime option"
  m_content_text :: "str option"
  m_raw :: json

record session_message_row =
  sm_session_id :: uuid
  sm_message_id :: uuid
  sm_idx :: int
  sm_created_at :: datetime

record db =
  sessions :: "session_row list"
  conversations :: "conversation_row list"
  messages :: "message_row list"
  session_messages :: "session_message_row list"
  draws :: nat
  ticks :: nat

definition MAX_CONTENT_LEN :: nat where
  "MAX_CONTENT_LEN = 32000"

definition uuid4 :: "env \<Rightarrow> db \<Rightarrow> uuid \<times> db" where
  "uuid4 e d = (uuid4_at e (draws d), d\<lparr>draws := Suc (draws d)\<rparr>)"

definition utcnow :: "env \<Rightarrow> db \<Rightarrow> datetime \<times> db" where
  "utcnow e d = (utcnow_at e (ticks d), d\<lparr>ticks := Suc (ticks d)\<rparr>)"

definition conversation_from_metadata :: "env \<Rightarrow> (str \<times> json) list option \<Rightarrow> uuid option" where
  "conversation_from_metadata e metadata =
     (case metadata of
        None \<Rightarrow> None
      | Some kvs \<Rightarrow>
          if kvs = [] then None
          else (case map_of kvs (lit ''conversation_id'') of
                  None \<Rightarrow> None
                | Some v \<Rightarrow> if \<not> truthy v then None else parse_uuid e v))"

text \<open>\<^verbatim>\<open>INSERT INTO conversations ... ON CONFLICT (id) DO NOTHING\<close>, with two clock readings.\<close>

definition ensure_conversation :: "env \<Rightarrow> uuid \<Rightarrow> str option \<Rightarrow> db \<Rightarrow> db" where
  "ensure_conversation e conversation_id title d =
     (let (t1, d1) = utcnow e d;
          (t2, d2) = utcnow e d1
      in if \<exists>c \<in> set (conversations d2). c_id c = conversation_id then d2
         else d2\<lparr>conversations := conversations d2 @
                [\<lparr>c_id = conversation_id, c_title = title, c_create_time = t1,
                  c_update_time = t2,
                  c_raw = JObj [(lit ''created_by'', JStr (lit ''sessions_api''))]\<rparr>]\<rparr>)"

definition create_session :: "env \<Rightarrow> str option \<Rightarrow> db \<Rightarrow> (uuid \<times> uuid) \<times> db" where
  "create_session e title d =
     (let (conversation_id, d1) = uuid4 e d;
          d2 = ensure_conversation e conversation_id title d1;
          (session_id, d3) = uuid4 e d2;
          metadata = JObj [(lit ''conversation_id'', JStr conversation_id)];
          (now, d4) = utcnow e d3
      in ((session_id, conversation_id),
          d4\<lparr>sessions := sessions d4 @
                [\<lparr>s_id = session_id, s_title = title, s_created_at = now, s_updated_at = now,
                  s_pinned = False, s_archived = False, s_metadata = metadata\<rparr>]\<rparr>))"

definition fetch_session_row :: "db \<Rightarrow> uuid \<Rightarrow> error + session_row" where
  "fetch_session_row d session_id =
     (case find (\<lambda>r. s_id r = session_id) (sessions d) of
        None \<Rightarrow> Inl SessionNotFound
      | Some row \<Rightarrow> Inr row)"

text \<open>\<^verbatim>\<open>UPDATE sessions SET metadata = %s, updated_at = %s WHERE id = %s\<close>\<close>

definition persist_conversation_metadata ::
    "env \<Rightarrow> uuid \<Rightarrow> (str \<times> json) list option \<Rightarrow> uuid \<Rightarrow> db \<Rightarrow> db" where
  "persist_conversation_metadata e session_id metadata conversation_id d =
     (let updated_meta =
            dict_set (lit ''conversation_id'') (JStr conversation_id)
              (case metadata of None \<Rightarrow> [] | Some kvs \<Rightarrow> kvs);
          (now, d1) = utcnow e d
      in d1\<lparr>sessions :=
              map (\<lambda>r. if s_id r = session_id
                        then r\<lparr>s_metadata := JObj updated_meta, s_updated_at := now\<rparr>
                        else r)
                  (sessions d1)\<rparr>)"

text \<open>
  The conversation of the first message linked to the session:
  \<^verbatim>\<open>SELECT m.conversation_id FROM session_messages sm JOIN messages m ON sm.message_id = m.id
  WHERE sm.session_id = %s ORDER BY sm.idx ASC, sm.created_at ASC LIMIT 1\<close>
\<close>

definition first_linked_conversation :: "db \<Rightarrow> uuid \<Rightarrow> uuid option option" where
  "first_linked_conversation d session_id =
     (let joined =
            concat (map (\<lambda>sm. map (\<lambda>m. (sm, m))
                                   (filter (\<lambda>m. m_id m = sm_message_id sm) (messages d)))
                        (filter (\<lambda>sm. sm_session_id sm = session_id) (session_messages d)));
          ordered = sort_key (\<lambda>(sm, m). sm_idx sm) (sort_key (\<lambda>(sm, m). sm_created_at sm) joined)
      in (case ordered of [] \<Rightarrow> None | (sm, m) # _ \<Rightarrow> Some (m_conversation_id m)))"

definition conversation_id_for_session ::
    "env \<Rightarrow> uuid \<Rightarrow> (str \<times> json) list option \<Rightarrow> db \<Rightarrow> uuid \<times> db" where
  "conversation_id_for_session e session_id metadata d =
     (case conversation_from_metadata e metadata of
        Some from_meta \<Rightarrow> (from_meta, ensure_conversation e from_meta None d)
      | None \<Rightarrow>
          (case first_linked_conversation d session_id of
             Some (Some conversation_id) \<Rightarrow>
               (conversation_id,
                persist_conversation_metadata e session_id metadata conversation_id
                  (ensure_conversation e conversation_id None d))
           | _ \<Rightarrow>
               (let (conversation_id, d1) = uuid4 e d
                in (conversation_id,
                    persist_conversation_metadata e session_id metadata conversation_id
                      (ensure_conversation e conversation_id None d1)))))"

text \<open>\<^verbatim>\<open>SELECT COALESCE(MAX(idx_in_conv) + 1, 0) FROM messages WHERE conversation_id = %s\<close>\<close>

definition next_idx_for_conversation :: "db \<Rightarrow> uuid \<Rightarrow> int" where
  "next_idx_for_conversation d conversation_id =
     (case filter (\<lambda>m. m_conversation_id m = Some conversation_id) (messages d) of
        [] \<Rightarrow> 0
      | m # ms \<Rightarrow> Max (set (map m_idx_in_conv (m # ms))) + 1)"

text \<open>\<^verbatim>\<open>SELECT COALESCE(MAX(idx) + 1, 0) FROM session_messages WHERE session_id = %s\<close>\<close>

definition next_idx_for_session :: "db \<Rightarrow> uuid \<Rightarrow> int" where
  "next_idx_for_session d session_id =
     (case filter (\<lambda>sm. sm_session_id sm = session_id) (session_messages d) of
        [] \<Rightarrow> 0
      | sm # sms \<Rightarrow> Max (set (map sm_idx (sm # sms))) + 1)"

text \<open>
  \<^verbatim>\<open>_insert_message\<close>. The statement is taken to be executed: a refusal of a parameter by
  the driver (psycopg refuses a string with the code point 0 or a lone surrogate) is not
  modelled, so the model says what a call that succeeds has written and returned, not
  which calls succeed.
\<close>

definition insert_message :: "env \<Rightarrow> uuid \<Rightarrow> str \<Rightarrow> str \<Rightarrow> int \<Rightarrow> db \<Rightarrow> uuid \<times> db" where
  "insert_message e conversation_id role content_text idx_in_conv d =
     (let (message_id, d1) = uuid4 e d;
          (now, d2) = utcnow e d1;
          content_trimmed = strip content_text;
          content_trimmed =
            (if content_trimmed \<noteq> [] \<and> length content_trimmed > MAX_CONTENT_LEN
             then take MAX_CONTENT_LEN content_trimmed else content_trimmed)
      in (message_id,
          d2\<lparr>messages := messages d2 @
                [\<lparr>m_id = message_id, m_conversation_id = Some conversation_id, m_role = role,
                  m_idx_in_conv = idx_in_conv, m_create_time = Some now,
                  m_update_time = Some now, m_content_text = Some content_trimmed,
                  m_raw = JObj [(lit ''created_by'', JStr (lit ''chat_api'')),
                                (lit ''role'', JStr role)]\<rparr>]\<rparr>))"

definition link_session_message :: "env \<Rightarrow> uuid \<Rightarrow> uuid \<Rightarrow> int \<Rightarrow> db \<Rightarrow> db" where
  "link_session_message e session_id message_id idx d =
     (let (now, d1) = utcnow e d
      in d1\<lparr>session_messages := session_messages d1 @
               [\<lparr>sm_session_id = session_id, sm_message_id = message_id, sm_idx = idx,
                 sm_created_at = now\<rparr>]\<rparr>)"

text \<open>The dictionary \<^verbatim>\<open>append_turn\<close> returns.\<close>

record turn_ids =
  r_session_id :: uuid
  r_conversation_id :: uuid
  r_user_message_id :: uuid
  r_assistant_message_id :: uuid

text \<open>
  \<open>append_turn\<close> returns its outcome together with the database as the connection holds
  it when the function is left, before the caller commits or rolls back.
\<close>

definition append_turn ::
    "env \<Rightarrow> uuid \<Rightarrow> str \<Rightarrow> str \<Rightarrow> db \<Rightarrow> (error + turn_ids) \<times> db" where
  "append_turn e session_id user_content assistant_content d =
     (case fetch_session_row d session_id of
        Inl err \<Rightarrow> (Inl err, d)
      | Inr session_row \<Rightarrow>
          if s_archived session_row then (Inl ValueError, d)
          else
            (let metadata = (case s_metadata session_row of JObj kvs \<Rightarrow> Some kvs | _ \<Rightarrow> None);
                 (conversation_id, d1) = conversation_id_for_session e session_id metadata d;
                 base_idx_conv = next_idx_for_conversation d1 conversation_id;
                 base_idx_session = next_idx_for_session d1 session_id;
                 (user_id, d2) =
                   insert_message e conversation_id (lit ''user'') user_content base_idx_conv d1;
                 d3 = link_session_message e session_id user_id base_idx_session d2;
                 (assistant_id, d4) =
                   insert_message e conversation_id (lit ''assistant'') assistant_content
                     (base_idx_conv + 1) d3;
                 d5 = link_session_message e session_id assistant_id (base_idx_session + 1) d4
             in (Inr \<lparr>r_session_id = session_id, r_conversation_id = conversation_id,
                      r_user_message_id = user_id, r_assistant_message_id = assistant_id\<rparr>,
                 d5)))"

section \<open>backend/services/agent.py: the retrieval tools\<close>

definition MAX_ROUNDS :: nat where
  "MAX_ROUNDS = 8"

definition MAX_HYDRATE_TURNS :: nat where
  "MAX_HYDRATE_TURNS = 20"

definition MAX_TURN_CHARS :: nat where
  "MAX_TURN_CHARS = 2000"

definition DEFAULT_BIN_DAYS :: int where
  "DEFAULT_BIN_DAYS = 7"

text \<open>\<^verbatim>\<open>_truncate(text, limit=MAX_TURN_CHARS)\<close>\<close>

definition truncate_text :: "str option \<Rightarrow> str option" where
  "truncate_text text =
     (case text of
        None \<Rightarrow> None
      | Some t \<Rightarrow> if length t > MAX_TURN_CHARS then Some (take MAX_TURN_CHARS t) else Some t)"

text \<open>
  \<^verbatim>\<open>_parse_iso_datetime(value)\<close>; the outer \<open>None\<close> stands for the exception it raises (a
  \<^verbatim>\<open>ValueError\<close> for a text that is no ISO date, an \<^verbatim>\<open>AttributeError\<close> for a value that
  is no string). \<^verbatim>\<open>trimmed.replace("Z", "+00:00")\<close> is \<open>replace_Z\<close>.
\<close>

definition replace_Z :: "str \<Rightarrow> str" where
  "replace_Z s = concat (map (\<lambda>c. if c = 90 then lit ''+00:00'' else [c]) s)"

definition parse_iso_datetime :: "env \<Rightarrow> json \<Rightarrow> datetime option option" where
  "parse_iso_datetime e v =
     (case v of
        JNull \<Rightarrow> Some None
      | JStr s \<Rightarrow>
          (let trimmed = strip s
           in if trimmed = [] then Some None
              else (case fromisoformat e (replace_Z trimmed) of
                      None \<Rightarrow> None
                    | Some parsed \<Rightarrow> Some (Some parsed)))
      | _ \<Rightarrow> None)"

text \<open>
  A tool response is the dictionary \<^verbatim>\<open>{"ok": False, "error": message}\<close> or
  \<^verbatim>\<open>{"ok": True, "data": {...}}\<close> with the data of a peek or of a hydrated turn. Times are
  kept as instants where the source renders them with \<^verbatim>\<open>_iso\<close>; the text of a caught
  exception, which the source appends to two messages, is left out of the message.
\<close>

record preview =
  pv_turn_id :: str
  pv_conversation_id :: str
  pv_user_message_id :: str
  pv_assistant_message_id :: "str option"
  pv_create_time :: "datetime option"
  pv_user_snippet :: str
  pv_assistant_snippet :: "str option"
  pv_score :: real

record peek_data =
  pd_query :: str
  pd_top_k :: int
  pd_bin_days :: int
  pd_top_n_snippets :: int
  pd_histogram :: histogram
  pd_previews :: "preview list"
  pd_total_candidates :: nat
  pd_preview_count :: nat
  pd_notice :: str

record turn_data =
  td_turn_id :: str
  td_provider :: str
  td_model :: str
  td_conversation_id :: str
  td_user_message_id :: str
  td_assistant_message_id :: "str option"
  td_create_time :: "datetime option"
  td_user_content :: "str option"
  td_assistant_content :: "str option"
  td_used_turn_summary :: bool
  td_embedding_created_at :: "datetime option"
  td_truncated :: bool
  td_notice :: str

datatype response = Failure str | PeekOk peek_data | TurnOk turn_data

fun ok :: "response \<Rightarrow> bool" where
  "ok (Failure msg) = False"
| "ok (PeekOk d) = True"
| "ok (TurnOk d) = True"

text \<open>The state of a \<^verbatim>\<open>RetrievalTools\<close> object: the counter \<^verbatim>\<open>self._hydrated\<close>.\<close>

record tools =
  hydrated :: nat

definition preview_of :: "turn_rec \<times> real \<Rightarrow> preview" where
  "preview_of row =
     (let t = fst row;
          assistant_source =
            (if t_used_turn_summary t then t_assistant_summary t else t_assistant_text t)
      in \<lparr>pv_turn_id = t_id t,
          pv_conversation_id = t_conversation_id t,
          pv_user_message_id = t_user_message_id t,
          pv_assistant_message_id = t_assistant_message_id t,
          pv_create_time = ensure_utc (t_user_create_time t),
          pv_user_snippet = (case trim_snippet (t_user_text t) of None \<Rightarrow> [] | Some x \<Rightarrow> x),
          pv_assistant_snippet = trim_snippet assistant_source,
          pv_score = score_from_distance (snd row)\<rparr>)"

text \<open>
  The arguments of a peek, as the \<^verbatim>\<open>try\<close> block reads them; \<open>Inl\<close> carries the message of
  the failure response.
\<close>

record probe =
  q_query :: str
  q_top_k :: int
  q_bin_days :: int
  q_top_n_snippets :: int
  q_start_time :: "datetime option"
  q_end_time :: "datetime option"
  q_conversation :: "uuid option"

definition get_or :: "(str \<times> json) list \<Rightarrow> str \<Rightarrow> json \<Rightarrow> json" where
  "get_or kvs key dflt = (case map_of kvs key of None \<Rightarrow> dflt | Some v \<Rightarrow> v)"

definition peek_arguments :: "env \<Rightarrow> (str \<times> json) list \<Rightarrow> str + probe" where
  "peek_arguments e arguments =
     (let q = get_or arguments (lit ''query'') JNull;
          query = strip (if truthy q then py_str e q else [])
      in if query = [] then Inl (lit ''query is required'')
         else
           (case (py_int e (get_or arguments (lit ''top_k'') (JInt DEFAULT_TOP_K)),
                  py_int e (get_or arguments (lit ''bin_days'') (JInt DEFAULT_BIN_DAYS)),
                  py_int e (get_or arguments (lit ''top_n_snippets'') (JInt DEFAULT_TOP_N_SNIPPETS)),
                  parse_iso_datetime e (get_or arguments (lit ''start_time'') JNull),
                  parse_iso_datetime e (get_or arguments (lit ''end_time'') JNull),
                  (let c = get_or arguments (lit ''conversation_id'') JNull
                   in if \<not> truthy c then Some None
                      else (case c of
                              JStr x \<Rightarrow> (case parse_uuid e c of None \<Rightarrow> None | Some u \<Rightarrow> Some (Some u))
                            | _ \<Rightarrow> None))) of
              (Some top_k, Some bin_days, Some top_n_snippets, Some start_time, Some end_time,
               Some conversation_uuid) \<Rightarrow>
                Inr \<lparr>q_query = query, q_top_k = top_k, q_bin_days = bin_days,
                     q_top_n_snippets = top_n_snippets, q_start_time = start_time,
                     q_end_time = end_time, q_conversation = conversation_uuid\<rparr>
            | _ \<Rightarrow> Inl (lit ''invalid arguments'')))"

text \<open>The part of \<^verbatim>\<open>RetrievalTools.peek\<close> after the arguments are read.\<close>

definition peek_probe :: "env \<Rightarrow> probe \<Rightarrow> error + response" where
  "peek_probe e p =
     (case embed e (q_query p) of
        Inl err \<Rightarrow> Inl err
      | Inr embedding \<Rightarrow>
          (let bin_seconds = q_bin_days p * 86400
           in case search e embedding (q_start_time p) (q_end_time p) (q_conversation p)
                     (q_top_k p) of
                Inl err \<Rightarrow> Inl err
              | Inr rows \<Rightarrow>
                  (let max_matches = min (q_top_n_snippets p) (int (length rows))
                   in case peek_loop preview_of bin_seconds max_matches rows [] [] of
                        Inl err \<Rightarrow> Inl err
                      | Inr (buckets, previews) \<Rightarrow>
                          (case histogram_buckets bin_seconds buckets of
                             Inl err \<Rightarrow> Inl err
                           | Inr hb \<Rightarrow>
                               Inr (PeekOk
                                 \<lparr>pd_query = q_query p, pd_top_k = q_top_k p,
                                  pd_bin_days = q_bin_days p,
                                  pd_top_n_snippets = q_top_n_snippets p,
                                  pd_histogram =
                                    \<lparr>h_bin_days = q_bin_days p, h_buckets = hb,
                                     h_total = length rows\<rparr>,
                                  pd_previews = previews,
                                  pd_total_candidates = length rows,
                                  pd_preview_count = length previews,
                                  pd_notice =
                                    lit ''Preview-only; hydrate with turn for evidence.''\<rparr>)))))"

text \<open>
  \<^verbatim>\<open>RetrievalTools.peek(arguments)\<close>. The arguments are what \<^verbatim>\<open>json.loads\<close> returned; on a
  value that is no dictionary \<^verbatim>\<open>arguments.get\<close> raises \<^verbatim>\<open>AttributeError\<close>.
\<close>

definition peek :: "env \<Rightarrow> json \<Rightarrow> error + response" where
  "peek e arguments =
     (case arguments of
        JObj kvs \<Rightarrow>
          (case peek_arguments e kvs of
             Inl msg \<Rightarrow> Inr (Failure msg)
           | Inr p \<Rightarrow> peek_probe e p)
      | _ \<Rightarrow> Inl AttributeError)"

text \<open>\<^verbatim>\<open>RetrievalTools.turn(arguments)\<close>, with the counter passed in and returned.\<close>

definition turn :: "env \<Rightarrow> tools \<Rightarrow> json \<Rightarrow> error + (response \<times> tools)" where
  "turn e ts arguments =
     (if hydrated ts \<ge> MAX_HYDRATE_TURNS
      then Inr (Failure (lit ''turn hydration cap reached''), ts)
      else
        (case arguments of
           JObj kvs \<Rightarrow>
             (case parse_uuid e (get_or kvs (lit ''turn_id'') JNull) of
                None \<Rightarrow> Inr (Failure (lit ''invalid turn_id''), ts)
              | Some turn_uuid \<Rightarrow>
                  (case find (\<lambda>t. t_id t = turn_uuid) (corpus e) of
                     None \<Rightarrow> Inr (Failure (lit ''turn not found''), ts)
                   | Some row \<Rightarrow>
                       (let assistant_content =
                              (if t_used_turn_summary row then t_assistant_summary row
                               else t_assistant_text row);
                            user_trunc = truncate_text (t_user_text row);
                            assistant_trunc = truncate_text assistant_content;
                            truncated = (user_trunc \<noteq> t_user_text row
                                         \<or> assistant_trunc \<noteq> assistant_content)
                        in Inr (TurnOk
                                 \<lparr>td_turn_id = t_id row,
                                  td_provider = t_provider row,
                                  td_model = t_model row,
                                  td_conversation_id = t_conversation_id row,
                                  td_user_message_id = t_user_message_id row,
                                  td_assistant_message_id = t_assistant_message_id row,
                                  td_create_time = ensure_utc (t_user_create_time row),
                                  td_user_content = user_trunc,
                                  td_assistant_content = assistant_trunc,
                                  td_used_turn_summary = t_used_turn_summary row,
                                  td_embedding_created_at = Some (t_created_at row),
                                  td_truncated = truncated,
                                  td_notice =
                                    lit ''Evidence bundle; suitable for grounding/quoting.''\<rparr>,
                                ts\<lparr>hydrated := hydrated ts + 1\<rparr>))))
         | _ \<Rightarrow> Inl AttributeError))"

text \<open>A candidate row of the search has a create time: \<^verbatim>\<open>u.create_time\<close> is not \<open>NULL\<close>.\<close>

definition has_create_time :: "turn_rec \<times> real \<Rightarrow> bool" where
  "has_create_time row = (t_user_create_time (fst row) \<noteq> None)"

text \<open>
  The hydrate calls of one run, made in order on the run's \<^verbatim>\<open>RetrievalTools\<close> object, and
  the two kinds of argument the specification of the tool names: a valid id of an existing
  turn, and a valid id of no turn.
\<close>

fun turn_calls :: "env \<Rightarrow> tools \<Rightarrow> json list \<Rightarrow> error + (response list \<times> tools)" where
  "turn_calls e ts [] = Inr ([], ts)"
| "turn_calls e ts (a # as) =
     (case turn e ts a of
        Inl err \<Rightarrow> Inl err
      | Inr (r, ts') \<Rightarrow>
          (case turn_calls e ts' as of
             Inl err \<Rightarrow> Inl err
           | Inr (rs, ts'') \<Rightarrow> Inr (r # rs, ts'')))"

definition existing_turn :: "env \<Rightarrow> json \<Rightarrow> bool" where
  "existing_turn e a =
     (case a of
        JObj kvs \<Rightarrow>
          (case parse_uuid e (get_or kvs (lit ''turn_id'') JNull) of
             None \<Rightarrow> False
           | Some u \<Rightarrow> find (\<lambda>t. t_id t = u) (corpus e) \<noteq> None)
      | _ \<Rightarrow> False)"

definition missing_turn :: "env \<Rightarrow> json \<Rightarrow> bool" where
  "missing_turn e a =
     (case a of
        JObj kvs \<Rightarrow>
          (case parse_uuid e (get_or kvs (lit ''turn_id'') JNull) of
             None \<Rightarrow> False
           | Some u \<Rightarrow> find (\<lambda>t. t_id t = u) (corpus e) = None)
      | _ \<Rightarrow> False)"

section \<open>backend/services/agent.py: persisting the turn\<close>

text \<open>
  \<^verbatim>\<open>AgentService._persist_turn\<close>. The calls it makes to the persistence interface are
  recorded in order, next to the outcome. The connection is a context manager: when an
  exception leaves the block the transaction is rolled back, so the database returned
  with an error is the one the function was given.
\<close>

datatype pcall = CreateSession | AppendTurn uuid str str

definition persist_turn ::
    "env \<Rightarrow> uuid option \<Rightarrow> str \<Rightarrow> str \<Rightarrow> db \<Rightarrow> pcall list \<times> (error + turn_ids) \<times> db" where
  "persist_turn e session_id user_text assistant_text d =
     (let user_clean = strip user_text in
      if user_clean = [] then ([], Inl (HTTPException 400), d)
      else
        (let assistant_clean = strip assistant_text in
         if assistant_clean = [] then ([], Inl (HTTPException 502), d)
         else
           (let (target_session_id, d1, calls) =
                  (case session_id of
                     None \<Rightarrow>
                       (let ((new_id, conversation_id), d') = create_session e None d
                        in (new_id, d', [CreateSession]))
                   | Some given \<Rightarrow> (given, d, []));
                calls = calls @ [AppendTurn target_session_id user_clean assistant_clean]
            in (case append_turn e target_session_id user_clean assistant_clean d1 of
                  (Inl SessionNotFound, d2) \<Rightarrow> (calls, Inl (HTTPException 404), d)
                | (Inl ValueError, d2) \<Rightarrow> (calls, Inl (HTTPException 400), d)
                | (Inl err, d2) \<Rightarrow> (calls, Inl err, d)
                | (Inr result, d2) \<Rightarrow> (calls, Inr result, d2)))))"

text \<open>A small database and surroundings, for evaluating the functions on concrete input.\<close>

definition demo_turn :: "str \<Rightarrow> datetime option \<Rightarrow> int \<Rightarrow> turn_rec" where
  "demo_turn ident create_time created =
     \<lparr>t_id = ident, t_provider = PROVIDER, t_model = MODEL,
      t_user_message_id = lit ''m1'', t_assistant_message_id = Some (lit ''m2''),
      t_used_turn_summary = False, t_created_at = created,
      t_conversation_id = lit ''c1'', t_user_create_time = create_time,
      t_user_text = Some (lit ''hello''), t_assistant_text = Some (lit ''hi''),
      t_assistant_summary = None\<rparr>"

text \<open>The argument strings \<open>{"turn_id": "t1"}\<close> and \<open>{"query": "x"}\<close>; 34 is the double quote.\<close>

definition demo_turn_arguments :: str where
  "demo_turn_arguments =
     lit ''{'' @ [34] @ lit ''turn_id'' @ [34] @ lit '': '' @ [34] @ lit ''t1'' @ [34] @ lit ''}''"

definition demo_peek_arguments :: str where
  "demo_peek_arguments =
     lit ''{'' @ [34] @ lit ''query'' @ [34] @ lit '': '' @ [34] @ lit ''x'' @ [34] @ lit ''}''"

definition demo_env :: env where
  "demo_env =
     \<lparr>uuid4_at = (\<lambda>n. lit ''u'' @ [48 + n]), utcnow_at = int,
      parse_uuid = (\<lambda>v. case v of JStr s \<Rightarrow> Some s | _ \<Rightarrow> None),
      py_str = (\<lambda>v. case v of JStr s \<Rightarrow> s | _ \<Rightarrow> []),
      py_int = (\<lambda>v. case v of JInt n \<Rightarrow> Some n | _ \<Rightarrow> None),
      fromisoformat = (\<lambda>s. None),
      json_loads =
        (\<lambda>s. if s = demo_turn_arguments then Some (JObj [(lit ''turn_id'', JStr (lit ''t1''))])
             else if s = demo_peek_arguments then Some (JObj [(lit ''query'', JStr (lit ''x''))])
             else if s = lit ''{}'' then Some (JObj [])
             else None),
      embed = (\<lambda>s. Inr []),
      vector_distance = (\<lambda>v t. real_of_int (t_created_at t)),
      corpus =
        [demo_turn (lit ''t1'') (Some 90000000000) 1,
         demo_turn (lit ''t2'') None 2,
         demo_turn (lit ''t3'') (Some 100000000000) 3,
         demo_turn (lit ''t4'') (Some 900000000000) 4],
      complete_at = (\<lambda>n. Inl (HTTPException 502))\<rparr>"

definition demo_db :: db where
  "demo_db =
     \<lparr>sessions =
        [\<lparr>s_id = lit ''s1'', s_title = None, s_created_at = 0, s_updated_at = 0,
          s_pinned = False, s_archived = False,
          s_metadata = JObj [(lit ''conversation_id'', JStr (lit ''c1''))]\<rparr>,
         \<lparr>s_id = lit ''s2'', s_title = None, s_created_at = 0, s_updated_at = 0,
          s_pinned = False, s_archived = True,
          s_metadata = JObj [(lit ''conversation_id'', JStr (lit ''c1''))]\<rparr>],
      conversations =
        [\<lparr>c_id = lit ''c1'', c_title = None, c_create_time = 0, c_update_time = 0,
          c_raw = JNull\<rparr>],
      messages = [], session_messages = [], draws = 0, ticks = 0\<rparr>"

section \<open>backend/services/agent.py: the orchestration loop\<close>

record tool_run =
  tr_tool :: str
  tr_arguments :: "(str \<times> json) list"
  tr_response :: response

text \<open>
  The message history. \<open>SystemPrompt\<close> is the message with the fixed \<^verbatim>\<open>SYSTEM_PROMPT\<close>; a
  tool message carries the call id, the tool name and the response, whose
  \<^verbatim>\<open>json.dumps\<close> is its content.
\<close>

datatype message =
    SystemPrompt
  | UserMessage str
  | AssistantMessage "str option" "tool_call list option"
  | ToolMessage "str option" "str option" response

record orchestrator_result =
  or_intent :: str
  or_final_answer :: "str option"
  or_status :: str
  or_rounds :: nat
  or_tool_runs :: "tool_run list"
  or_cited_turn_ids :: "str list"
  or_histogram :: "histogram option"

text \<open>
  The local variables of \<^verbatim>\<open>LLMOrchestrator.run\<close> and the state of its tools.
  \<open>ls_parsed_args\<close> is the variable \<^verbatim>\<open>parsed_args\<close>, \<open>None\<close> as long as no assignment to it
  has been made: it is assigned only when \<^verbatim>\<open>json.loads\<close> returns, and read after the
  \<^verbatim>\<open>try\<close> statement in either case.
\<close>

record loop_state =
  ls_messages :: "message list"
  ls_tool_runs :: "tool_run list"
  ls_histogram :: "histogram option"
  ls_parsed_args :: "json option"
  ls_tools :: tools

definition extract_message :: "completion \<Rightarrow> assistant_message" where
  "extract_message choices =
     (case choices of
        [] \<Rightarrow> \<lparr>am_content = None, am_tool_calls = None\<rparr>
      | choice # _ \<Rightarrow>
          (case choice of
             None \<Rightarrow> \<lparr>am_content = None, am_tool_calls = None\<rparr>
           | Some m \<Rightarrow> m))"

definition dispatch :: "env \<Rightarrow> tools \<Rightarrow> str option \<Rightarrow> json \<Rightarrow> error + (response \<times> tools)" where
  "dispatch e ts tool_name arguments =
     (if tool_name = Some (lit ''retrieval_peek'')
      then (case peek e arguments of Inl err \<Rightarrow> Inl err | Inr r \<Rightarrow> Inr (r, ts))
      else if tool_name = Some (lit ''retrieval_turn'') then turn e ts arguments
      else Inr (Failure (lit ''Unknown tool''), ts))"

text \<open>
  The body of \<^verbatim>\<open>for call in tool_calls\<close>:
  \<^verbatim>\<open>
  raw_args = call.get("function", {}).get("arguments") or "{}"
  try:
      parsed_args = json.loads(raw_args)
  except json.JSONDecodeError as exc:
      response = {"ok": False, "error": f"Invalid JSON arguments: {exc}"}
  else:
      response = self._dispatch(tool_name, parsed_args)
      if tool_name == "retrieval_peek" and response.get("ok"):
          histogram = response["data"].get("histogram")
  tool_runs.append(ToolRun(tool=tool_name or "unknown",
      arguments=parsed_args if isinstance(parsed_args, dict) else {}, response=response))
  messages.append({"role": "tool", ...})
  \<close>
\<close>

definition run_call :: "env \<Rightarrow> loop_state \<Rightarrow> tool_call \<Rightarrow> error + loop_state" where
  "run_call e st call =
     (let tool_name = tc_name call;
          tool_id = tc_id call;
          raw_args = (case tc_arguments call of
                        None \<Rightarrow> lit ''{}''
                      | Some a \<Rightarrow> if a = [] then lit ''{}'' else a)
      in case (case json_loads e raw_args of
                 None \<Rightarrow> Inr (Failure (lit ''Invalid JSON arguments''), st)
               | Some parsed_args \<Rightarrow>
                   (case dispatch e (ls_tools st) tool_name parsed_args of
                      Inl err \<Rightarrow> Inl err
                    | Inr (response, ts) \<Rightarrow>
                        Inr (response,
                             st\<lparr>ls_parsed_args := Some parsed_args,
                                ls_tools := ts,
                                ls_histogram :=
                                  (if tool_name = Some (lit ''retrieval_peek'') \<and> ok response
                                   then (case response of
                                           PeekOk d \<Rightarrow> Some (pd_histogram d)
                                         | _ \<Rightarrow> None)
                                   else ls_histogram st)\<rparr>))) of
           Inl err \<Rightarrow> Inl err
         | Inr (response, st1) \<Rightarrow>
             (case ls_parsed_args st1 of
                None \<Rightarrow> Inl UnboundLocalError
              | Some parsed_args \<Rightarrow>
                  Inr (st1\<lparr>ls_tool_runs := ls_tool_runs st1 @
                             [\<lparr>tr_tool = (case tool_name of
                                            None \<Rightarrow> lit ''unknown''
                                          | Some n \<Rightarrow> if n = [] then lit ''unknown'' else n),
                               tr_arguments = (case parsed_args of JObj kvs \<Rightarrow> kvs | _ \<Rightarrow> []),
                               tr_response = response\<rparr>],
                           ls_messages := ls_messages st1 @
                             [ToolMessage tool_id tool_name response]\<rparr>)))"

fun run_calls :: "env \<Rightarrow> loop_state \<Rightarrow> tool_call list \<Rightarrow> error + loop_state" where
  "run_calls e st [] = Inr st"
| "run_calls e st (call # calls) =
     (case run_call e st call of
        Inl err \<Rightarrow> Inl err
      | Inr st' \<Rightarrow> run_calls e st' calls)"

text \<open>
  \<^verbatim>\<open>[tr.response["data"]["turn_id"] for tr in tool_runs
    if tr.tool == "retrieval_turn" and tr.response.get("ok") and tr.response.get("data")]\<close>;
  the data of a peek has no key \<^verbatim>\<open>"turn_id"\<close>.
\<close>

fun cited_turn_ids :: "tool_run list \<Rightarrow> error + str list" where
  "cited_turn_ids [] = Inr []"
| "cited_turn_ids (tr # trs) =
     (if tr_tool tr = lit ''retrieval_turn'' \<and> ok (tr_response tr)
      then (case tr_response tr of
              TurnOk d \<Rightarrow>
                (case cited_turn_ids trs of
                   Inl err \<Rightarrow> Inl err
                 | Inr ids \<Rightarrow> Inr (td_turn_id d # ids))
            | _ \<Rightarrow> Inl KeyError)
      else cited_turn_ids trs)"

text \<open>
  \<^verbatim>\<open>for round_idx in range(1, MAX_ROUNDS + 1)\<close>, as a recursion on the number of rounds that
  remain; the equation for no remaining round is the \<^verbatim>\<open>return\<close> after the loop.
\<close>

fun run_rounds ::
    "env \<Rightarrow> str \<Rightarrow> nat \<Rightarrow> nat \<Rightarrow> loop_state \<Rightarrow> error + (orchestrator_result \<times> tools)" where
  "run_rounds e intent 0 round_idx st =
     Inr (\<lparr>or_intent = intent, or_final_answer = None,
           or_status = lit ''max_rounds_exceeded'', or_rounds = MAX_ROUNDS,
           or_tool_runs = ls_tool_runs st, or_cited_turn_ids = [],
           or_histogram = ls_histogram st\<rparr>,
          ls_tools st)"
| "run_rounds e intent (Suc remaining) round_idx st =
     (case complete_at e round_idx of
        Inl err \<Rightarrow> Inl err
      | Inr completion \<Rightarrow>
          (let message = extract_message completion;
               st1 = st\<lparr>ls_messages := ls_messages st @
                         [AssistantMessage (am_content message) (am_tool_calls message)]\<rparr>;
               tool_calls = (case am_tool_calls message of None \<Rightarrow> [] | Some cs \<Rightarrow> cs)
           in if tool_calls \<noteq> []
              then (case run_calls e st1 tool_calls of
                      Inl err \<Rightarrow> Inl err
                    | Inr st2 \<Rightarrow> run_rounds e intent remaining (Suc round_idx) st2)
              else
                (let content = strip (case am_content message of None \<Rightarrow> [] | Some c \<Rightarrow> c)
                 in if content \<noteq> []
                    then (case cited_turn_ids (ls_tool_runs st1) of
                            Inl err \<Rightarrow> Inl err
                          | Inr cited \<Rightarrow>
                              Inr (\<lparr>or_intent = intent, or_final_answer = Some content,
                                    or_status = lit ''completed'', or_rounds = round_idx,
                                    or_tool_runs = ls_tool_runs st1,
                                    or_cited_turn_ids = cited,
                                    or_histogram = ls_histogram st1\<rparr>,
                                   ls_tools st1))
                    else run_rounds e intent remaining (Suc round_idx) st1)))"

text \<open>\<^verbatim>\<open>LLMOrchestrator.run(intent)\<close>, on tools in the state \<open>ts\<close>.\<close>

definition orchestrator_run :: "env \<Rightarrow> tools \<Rightarrow> str \<Rightarrow> error + (orchestrator_result \<times> tools)" where
  "orchestrator_run e ts intent =
     run_rounds e intent MAX_ROUNDS 1
       \<lparr>ls_messages = [SystemPrompt, UserMessage (strip intent)], ls_tool_runs = [],
        ls_histogram = None, ls_parsed_args = None, ls_tools = ts\<rparr>"

text \<open>
  \<^verbatim>\<open>AgentService.run(intent, session_id)\<close>, with the calls it makes to the persistence
  interface. \<open>chat_client_given\<close> says whether the service was built with a chat client;
  without one \<^verbatim>\<open>_build_chat_client\<close> reads the key from the process environment, the
  parameter \<open>api_key\<close>. The tools are created afresh, with the hydrate counter at zero.
\<close>

record metadata =
  md_cited_turn_ids :: "str list"
  md_histogram :: histogram
  md_session_id :: str
  md_conversation_id :: str
  md_user_message_id :: str
  md_assistant_message_id :: str

definition agent_run ::
    "env \<Rightarrow> bool \<Rightarrow> str option \<Rightarrow> str \<Rightarrow> uuid option \<Rightarrow> db
     \<Rightarrow> pcall list \<times> (error + (str \<times> metadata)) \<times> db" where
  "agent_run e chat_client_given api_key intent session_id d =
     (if \<not> chat_client_given \<and> (api_key = None \<or> api_key = Some [])
      then ([], Inl (HTTPException 502), d)
      else
        (case orchestrator_run e \<lparr>hydrated = 0\<rparr> intent of
           Inl err \<Rightarrow> ([], Inl err, d)
         | Inr (result, ts) \<Rightarrow>
             (case or_final_answer result of
                None \<Rightarrow> ([], Inl (HTTPException 502), d)
              | Some answer \<Rightarrow>
                  if answer = [] then ([], Inl (HTTPException 502), d)
                  else
                    (let hist =
                           (case or_histogram result of
                              None \<Rightarrow> \<lparr>h_bin_days = DEFAULT_BIN_DAYS, h_buckets = [], h_total = 0\<rparr>
                            | Some h \<Rightarrow> h)
                     in case persist_turn e session_id intent answer d of
                          (calls, Inl err, d') \<Rightarrow> (calls, Inl err, d')
                        | (calls, Inr persisted, d') \<Rightarrow>
                            (calls,
                             Inr (answer,
                                  \<lparr>md_cited_turn_ids = or_cited_turn_ids result,
                                   md_histogram = hist,
                                   md_session_id = r_session_id persisted,
                                   md_conversation_id = r_conversation_id persisted,
                                   md_user_message_id = r_user_message_id persisted,
                                   md_assistant_message_id = r_assistant_message_id persisted\<rparr>),
                             d')))))"

text \<open>
  Notions the properties of the loop are stated with: the tool calls of a completion; a
  completion with no tool call and no text but white space; the turn ids of the
  successful \<open>retrieval_turn\<close> runs of a log, in order; and a tool call that is sure to
  return a response, because its arguments decode to a dictionary and, if it is a peek,
  the peek returns.
\<close>

definition tool_calls_of :: "completion \<Rightarrow> tool_call list" where
  "tool_calls_of c = (case am_tool_calls (extract_message c) of None \<Rightarrow> [] | Some cs \<Rightarrow> cs)"

definition degenerate :: "completion \<Rightarrow> bool" where
  "degenerate c \<longleftrightarrow>
     tool_calls_of c = []
     \<and> strip (case am_content (extract_message c) of None \<Rightarrow> [] | Some t \<Rightarrow> t) = []"

definition successful_turn_ids :: "tool_run list \<Rightarrow> str list" where
  "successful_turn_ids runs =
     concat (map (\<lambda>tr. if tr_tool tr = lit ''retrieval_turn''
                        then (case tr_response tr of TurnOk d \<Rightarrow> [td_turn_id d] | _ \<Rightarrow> [])
                        else [])
                 runs)"

definition call_returns :: "env \<Rightarrow> tool_call \<Rightarrow> bool" where
  "call_returns e call =
     (case json_loads e (case tc_arguments call of
                           None \<Rightarrow> lit ''{}''
                         | Some a \<Rightarrow> if a = [] then lit ''{}'' else a) of
        Some (JObj kvs) \<Rightarrow>
          (if tc_name call = Some (lit ''retrieval_peek'')
           then (case peek e (JObj kvs) of Inl err \<Rightarrow> False | Inr r \<Rightarrow> True)
           else True)
      | _ \<Rightarrow> False)"

text \<open>
  Completions and gateways for evaluating the loop: a round that asks for one tool call,
  a final answer, a blank reply; a gateway that asks to hydrate the turn \<open>t1\<close> in every
  round; one that does so for seven rounds and asks for a peek in the eighth, while the
  embedding gateway fails; one that hydrates \<open>t1\<close> twice and then answers; and one that
  sends blank replies only.
\<close>

definition demo_turn_call :: tool_call where
  "demo_turn_call =
     \<lparr>tc_id = Some (lit ''call-1''), tc_name = Some (lit ''retrieval_turn''),
      tc_arguments = Some demo_turn_arguments\<rparr>"

definition demo_peek_call :: tool_call where
  "demo_peek_call =
     \<lparr>tc_id = Some (lit ''call-2''), tc_name = Some (lit ''retrieval_peek''),
      tc_arguments = Some demo_peek_arguments\<rparr>"

definition demo_tool_round :: "tool_call \<Rightarrow> completion" where
  "demo_tool_round call = [Some \<lparr>am_content = None, am_tool_calls = Some [call]\<rparr>]"

definition demo_answer :: completion where
  "demo_answer = [Some \<lparr>am_content = Some (lit '' done ''), am_tool_calls = None\<rparr>]"

definition demo_blank :: completion where
  "demo_blank = [Some \<lparr>am_content = Some (lit ''  ''), am_tool_calls = None\<rparr>]"

text \<open>The data of the hydrated turn \<open>t1\<close> of the small corpus, and the arguments that name it.\<close>

definition demo_turn_data :: turn_data where
  "demo_turn_data =
     \<lparr>td_turn_id = lit ''t1'', td_provider = PROVIDER, td_model = MODEL,
      td_conversation_id = lit ''c1'', td_user_message_id = lit ''m1'',
      td_assistant_message_id = Some (lit ''m2''), td_create_time = Some 90000000000,
      td_user_content = Some (lit ''hello''), td_assistant_content = Some (lit ''hi''),
      td_used_turn_summary = False, td_embedding_created_at = Some 1, td_truncated = False,
      td_notice = lit ''Evidence bundle; suitable for grounding/quoting.''\<rparr>"

definition demo_turn_args :: "(str \<times> json) list" where
  "demo_turn_args = [(lit ''turn_id'', JStr (lit ''t1''))]"

definition demo_turn_run :: tool_run where
  "demo_turn_run =
     \<lparr>tr_tool = lit ''retrieval_turn'', tr_arguments = demo_turn_args,
      tr_response = TurnOk demo_turn_data\<rparr>"

definition hydrating_env :: env where
  "hydrating_env = demo_env\<lparr>complete_at := (\<lambda>i. Inr (demo_tool_round demo_turn_call))\<rparr>"

definition aborting_env :: env where
  "aborting_env =
     demo_env\<lparr>embed := (\<lambda>q. Inl (HTTPException 502)),
              complete_at :=
                (\<lambda>i. Inr (demo_tool_round (if i < 8 then demo_turn_call else demo_peek_call)))\<rparr>"

definition answering_env :: env where
  "answering_env =
     demo_env\<lparr>complete_at :=
                (\<lambda>i. if i < 3 then Inr (demo_tool_round demo_turn_call) else Inr demo_answer)\<rparr>"

definition blank_env :: env where
  "blank_env = demo_env\<lparr>complete_at := (\<lambda>i. Inr demo_blank)\<rparr>"

text \<open>A gateway that sends a blank reply in the first round and the answer from the second on.\<close>

definition blank_then_answer_env :: env where
  "blank_then_answer_env =
     demo_env\<lparr>complete_at := (\<lambda>i. if i < 2 then Inr demo_blank else Inr demo_answer)\<rparr>"

section \<open>backend/services/agent.py: the streaming response\<close>

text \<open>
  \<^verbatim>\<open>stream_answer(text, metadata)\<close> is a generator; the model returns the list of the
  strings it yields, in order. \<^verbatim>\<open>json.dumps\<close> is the parameter \<open>dumps\<close>, and the two
  draws of \<^verbatim>\<open>uuid4()\<close> are the parameters \<open>uuid1\<close> and \<open>uuid2\<close> (their text).

  \<^verbatim>\<open>lines = text.split(" ")\<close>
\<close>

definition split_space :: "str \<Rightarrow> str list" where
  "split_space text = split_by (\<lambda>c. c = 32) text"

text \<open>\<^verbatim>\<open>token + (" " if idx < len(lines) - 1 else "")\<close>\<close>

definition delta_content :: "str list \<Rightarrow> nat \<Rightarrow> str \<Rightarrow> str" where
  "delta_content lines idx token =
     token @ (if int idx < int (length lines) - 1 then lit '' '' else [])"

definition token_payload :: "str \<Rightarrow> str \<Rightarrow> json" where
  "token_payload chunk_id content =
     JObj [(lit ''id'', JStr chunk_id),
           (lit ''object'', JStr (lit ''chat.completion.chunk'')),
           (lit ''choices'',
              JList [JObj [(lit ''index'', JInt 0),
                           (lit ''delta'', JObj [(lit ''content'', JStr content)]),
                           (lit ''finish_reason'', JNull)]])]"

definition meta_payload :: "str \<Rightarrow> json \<Rightarrow> json" where
  "meta_payload meta_id metadata =
     JObj [(lit ''id'', JStr meta_id),
           (lit ''object'', JStr (lit ''chat.completion.chunk'')),
           (lit ''choices'',
              JList [JObj [(lit ''index'', JInt 0),
                           (lit ''delta'', JObj [(lit ''metadata'', metadata)]),
                           (lit ''finish_reason'', JStr (lit ''metadata''))]])]"

text \<open>An event: \<^verbatim>\<open>"data: " + json.dumps(payload) + "\n\n"\<close>.\<close>

definition sse_event :: "(json \<Rightarrow> str) \<Rightarrow> json \<Rightarrow> str" where
  "sse_event dumps payload = lit ''data: '' @ dumps payload @ [10, 10]"

definition done_event :: str where
  "done_event = lit ''data: [DONE]'' @ [10, 10]"

definition stream_answer :: "(json \<Rightarrow> str) \<Rightarrow> str \<Rightarrow> str \<Rightarrow> str \<Rightarrow> json \<Rightarrow> str list" where
  "stream_answer dumps uuid1 uuid2 text metadata =
     (let chunk_id = lit ''chatcmpl-'' @ uuid1;
          lines = split_space text
      in map (\<lambda>(idx, token). sse_event dumps (token_payload chunk_id (delta_content lines idx token)))
             (enumerate 0 lines)
         @ [sse_event dumps (meta_payload (lit ''meta-'' @ uuid2) metadata), done_event])"

text \<open>
  The stream as the specification words it, for comparison with \<open>stream_answer\<close>: one
  token-delta event per whitespace-split word of the answer (the words of
  \<^verbatim>\<open>text.split()\<close>: maximal runs of code points that are not white space), each word
  with a trailing space except the last, then the metadata event, then the terminal
  literal.
\<close>

definition whitespace_words :: "str \<Rightarrow> str list" where
  "whitespace_words text = filter (\<lambda>w. w \<noteq> []) (split_by isspace text)"

definition stream_answer_spec :: "(json \<Rightarrow> str) \<Rightarrow> str \<Rightarrow> str \<Rightarrow> str \<Rightarrow> json \<Rightarrow> str list" where
  "stream_answer_spec dumps uuid1 uuid2 text metadata =
     (let chunk_id = lit ''chatcmpl-'' @ uuid1;
          ws = whitespace_words text
      in map (\<lambda>w. sse_event dumps (token_payload chunk_id (w @ lit '' ''))) (butlast ws)
         @ (if ws = [] then [] else [sse_event dumps (token_payload chunk_id (last ws))])
         @ [sse_event dumps (meta_payload (lit ''meta-'' @ uuid2) metadata), done_event])"

section \<open>Properties\<close>

subsection \<open>Strings\<close>

lemma lit_space: "lit '' '' = [32]"
  by (simp add: lit_def)

lemma split_by_nonempty: "split_by sep s \<noteq> []"
  by (induction s) (auto split: list.splits)

lemma split_by_no_sep: "w \<in> set (split_by sep s) \<Longrightarrow> c \<in> set w \<Longrightarrow> \<not> sep c"
proof (induction s arbitrary: w)
  case Nil
  then show ?case by simp
next
  case (Cons a s)
  obtain v vs where sp: "split_by sep s = v # vs"
    using split_by_nonempty [of sep s] by (cases "split_by sep s") auto
  show ?case
  proof (cases "sep a")
    case True
    then show ?thesis using Cons by auto
  next
    case False
    with Cons.prems sp have "w = a # v \<or> w \<in> set vs"
      by simp
    then show ?thesis
    proof
      assume "w = a # v"
      then have "c = a \<or> c \<in> set v" using Cons.prems by auto
      then show ?thesis using False Cons.IH [of v] sp by auto
    next
      assume "w \<in> set vs"
      then show ?thesis using Cons.IH [of w] Cons.prems sp by simp
    qed
  qed
qed

lemma join_split_by: "join [k] (split_by (\<lambda>c. c = k) s) = s"
proof (induction s)
  case Nil
  then show ?case by simp
next
  case (Cons c cs)
  obtain w ws where sp: "split_by (\<lambda>c. c = k) cs = w # ws"
    using split_by_nonempty [of "\<lambda>c. c = k" cs] by (cases "split_by (\<lambda>c. c = k) cs") auto
  show ?case
  proof (cases "c = k")
    case True
    then show ?thesis using Cons sp by simp
  next
    case False
    then show ?thesis using Cons sp by (cases ws) simp_all
  qed
qed

lemma length_split_by: "length (split_by sep s) = Suc (length (filter sep s))"
  using split_by_nonempty [of sep]
  by (induction s) (auto split: list.splits)

lemma concat_trailing:
  "ws \<noteq> [] \<Longrightarrow> concat (map (\<lambda>w. w @ sep) (butlast ws) @ [last ws]) = join sep ws"
  by (induction sep ws rule: join.induct) auto

lemma enumerate_trailing:
  "map (\<lambda>(idx, token). f (token @ (if int idx < int (n + length ws) - 1 then [k] else [])))
       (enumerate n ws)
   = (if ws = [] then [] else map (\<lambda>w. f (w @ [k])) (butlast ws) @ [f (last ws)])"
proof (induction ws arbitrary: n)
  case Nil
  then show ?case by simp
next
  case (Cons w ws)
  have "int n < int (n + length (w # ws)) - 1 \<longleftrightarrow> ws \<noteq> []"
    by auto
  moreover have "n + length (w # ws) = Suc n + length ws"
    by simp
  ultimately show ?case
    using Cons.IH [of "Suc n"] by (simp del: of_nat_add of_nat_Suc)
qed

subsection \<open>Similarity score\<close>

text \<open>The exponent functions bound their argument between two powers of two.\<close>

lemma log2_up_numeral:
  "log2_up (numeral k) x = (if 2 \<le> x then Suc (log2_up (pred_numeral k) (x / 2)) else 0)"
  by (simp add: numeral_eq_Suc)

lemma log2_down_numeral:
  "log2_down (numeral k) x = (if x < 1 then Suc (log2_down (pred_numeral k) (2 * x)) else 0)"
  by (simp add: numeral_eq_Suc)

lemma log2_up_lower: "1 \<le> x \<Longrightarrow> 2 ^ log2_up n x \<le> x"
proof (induction n arbitrary: x)
  case 0
  then show ?case by simp
next
  case (Suc n)
  show ?case
  proof (cases "2 \<le> x")
    case True
    then have "2 ^ log2_up n (x / 2) \<le> x / 2"
      by (intro Suc.IH) simp
    with True show ?thesis by simp
  next
    case False
    with Suc.prems show ?thesis by simp
  qed
qed

lemma log2_up_upper: "x < 2 ^ Suc n \<Longrightarrow> x < 2 ^ Suc (log2_up n x)"
proof (induction n arbitrary: x)
  case 0
  then show ?case by simp
next
  case (Suc n)
  show ?case
  proof (cases "2 \<le> x")
    case True
    from Suc.prems have "x / 2 < 2 ^ Suc n"
      by simp
    then have "x / 2 < 2 ^ Suc (log2_up n (x / 2))"
      by (rule Suc.IH)
    with True show ?thesis by simp
  next
    case False
    then show ?thesis by simp
  qed
qed

lemma log2_down_ge1: "1 \<le> x \<Longrightarrow> log2_down n x = 0"
  by (cases n) simp_all

lemma log2_down_pos: "x < 1 \<Longrightarrow> 0 < n \<Longrightarrow> 0 < log2_down n x"
  by (cases n) simp_all

lemma log2_down_upper: "x < 1 \<Longrightarrow> x * 2 ^ log2_down n x < 2"
proof (induction n arbitrary: x)
  case 0
  then show ?case by simp
next
  case (Suc n)
  show ?case
  proof (cases "2 * x < 1")
    case True
    then have "2 * x * 2 ^ log2_down n (2 * x) < 2"
      by (rule Suc.IH)
    with Suc.prems show ?thesis by (simp add: mult_ac)
  next
    case False
    then have "log2_down n (2 * x) = 0"
      by (intro log2_down_ge1) simp
    with Suc.prems show ?thesis by simp
  qed
qed

lemma log2_down_lower: "x < 1 \<Longrightarrow> log2_down n x < n \<Longrightarrow> 1 \<le> x * 2 ^ log2_down n x"
proof (induction n arbitrary: x)
  case 0
  then show ?case by simp
next
  case (Suc n)
  show ?case
  proof (cases "2 * x < 1")
    case True
    from Suc.prems have "log2_down n (2 * x) < n"
      by simp
    with True have "1 \<le> 2 * x * 2 ^ log2_down n (2 * x)"
      by (rule Suc.IH)
    with Suc.prems show ?thesis by (simp add: mult_ac)
  next
    case False
    then have "log2_down n (2 * x) = 0"
      by (intro log2_down_ge1) simp
    with Suc.prems False show ?thesis by simp
  qed
qed

lemma quantum_ge: "- 1074 \<le> quantum x"
  by (simp add: quantum_def)

lemma quantum_upper:
  assumes "0 < x" and "x < 2 ^ 1025"
  shows "x < 2 powi (quantum x + 53)"
proof (cases "1 \<le> x")
  case True
  have "x < 2 ^ Suc (log2_up 1024 x)"
    by (rule log2_up_upper) (use assms in simp)
  moreover have "quantum x + 53 = int (Suc (log2_up 1024 x))"
    using True by (simp add: quantum_def)
  ultimately show ?thesis
    by (simp only: power_int_of_nat)
next
  case False
  define k where "k = log2_down 1074 x"
  have "x * 2 ^ k < 2"
    unfolding k_def by (rule log2_down_upper) (use False in simp)
  then have "x < 2 / 2 ^ k"
    by (simp add: pos_less_divide_eq)
  also have "2 / 2 ^ k = (2::real) powi (1 - int k)"
    by (simp add: power_int_diff)
  also have "\<dots> \<le> 2 powi (quantum x + 53)"
    by (rule power_int_increasing) (use False in \<open>simp_all add: quantum_def k_def\<close>)
  finally show ?thesis .
qed

lemma quantum_lower:
  assumes "0 < x" and "- 1074 < quantum x"
  shows "2 powi (quantum x + 52) \<le> x"
proof (cases "1 \<le> x")
  case True
  then have "2 ^ log2_up 1024 x \<le> x"
    by (rule log2_up_lower)
  moreover have "quantum x + 52 = int (log2_up 1024 x)"
    using True by (simp add: quantum_def)
  ultimately show ?thesis
    by (simp only: power_int_of_nat)
next
  case False
  define k where "k = log2_down 1074 x"
  from False assms(2) have q: "quantum x = - int k - 52" and k: "k < 1074"
    by (simp_all add: quantum_def k_def max_def split: if_splits)
  have "1 \<le> x * 2 ^ k"
    unfolding k_def by (rule log2_down_lower) (use False k in \<open>simp_all add: k_def\<close>)
  then have "1 / 2 ^ k \<le> x"
    by (simp add: pos_divide_le_eq)
  moreover have "(2::real) powi (quantum x + 52) = 1 / 2 ^ k"
    by (simp add: q power_int_minus divide_inverse)
  ultimately show ?thesis
    by simp
qed

lemma quantum_mono:
  assumes "0 < x" and "x \<le> y" and "y < 2 ^ 1025"
  shows "quantum x \<le> quantum y"
proof (rule ccontr)
  assume "\<not> quantum x \<le> quantum y"
  then have lt: "quantum y < quantum x"
    by simp
  with quantum_ge [of y] have "- 1074 < quantum x"
    by linarith
  then have "2 powi (quantum x + 52) \<le> x"
    by (rule quantum_lower [OF assms(1)])
  also note assms(2)
  also have "y < 2 powi (quantum y + 53)"
    by (rule quantum_upper) (use assms in simp_all)
  also have "\<dots> \<le> 2 powi (quantum x + 52)"
    by (rule power_int_increasing) (use lt in simp_all)
  finally show False
    by simp
qed

lemma round_half_even_floor:
  "\<lfloor>x\<rfloor> \<le> round_half_even x" "round_half_even x \<le> \<lfloor>x\<rfloor> + 1"
  by (simp_all add: round_half_even_def Let_def)

lemma round_half_even_near:
  "\<bar>of_int (round_half_even x) - x\<bar> \<le> 1 / 2"
proof -
  have "of_int \<lfloor>x\<rfloor> \<le> x" "x < of_int \<lfloor>x\<rfloor> + 1"
    by linarith+
  then show ?thesis
    by (auto simp: round_half_even_def Let_def abs_le_iff)
qed

lemma round_half_even_of_int [simp]: "round_half_even (of_int n) = n"
  by (simp add: round_half_even_def)

lemma round_half_even_mono:
  assumes "x \<le> y"
  shows "round_half_even x \<le> round_half_even y"
proof (cases "\<lfloor>x\<rfloor> < \<lfloor>y\<rfloor>")
  case True
  have "round_half_even x \<le> \<lfloor>x\<rfloor> + 1"
    by (rule round_half_even_floor)
  also have "\<dots> \<le> \<lfloor>y\<rfloor>"
    using True by simp
  also have "\<dots> \<le> round_half_even y"
    by (rule round_half_even_floor)
  finally show ?thesis .
next
  case False
  with assms have "\<lfloor>x\<rfloor> = \<lfloor>y\<rfloor>"
    using floor_mono [of x y] by linarith
  with assms show ?thesis
    by (auto simp: round_half_even_def Let_def)
qed

lemma round_double_pos:
  "0 < x \<Longrightarrow>
   round_double x = of_int (round_half_even (x / 2 powi quantum x)) * 2 powi quantum x"
  by (simp add: round_double_def Let_def)

lemma round_double_near:
  assumes "0 < x"
  shows "\<bar>round_double x - x\<bar> \<le> 2 powi quantum x / 2"
proof -
  define p :: real where "p = 2 powi quantum x"
  have p: "0 < p"
    by (simp add: p_def)
  have "round_double x - x = (of_int (round_half_even (x / p)) - x / p) * p"
    using p assms by (simp add: round_double_pos p_def field_simps)
  then have "\<bar>round_double x - x\<bar> = \<bar>of_int (round_half_even (x / p)) - x / p\<bar> * p"
    using p by (simp add: abs_mult)
  also have "\<dots> \<le> 1 / 2 * p"
    by (intro mult_right_mono round_half_even_near) (use p in simp)
  finally show ?thesis
    by (simp add: p_def)
qed

lemma round_double_upper:
  assumes "0 < x" and "x < 2 ^ 1025"
  shows "round_double x \<le> 2 powi (quantum x + 53)"
proof -
  define p :: real where "p = 2 powi quantum x"
  have p: "0 < p"
    by (simp add: p_def)
  have s: "(2::real) powi (quantum x + 53) = 2 ^ 53 * p"
    by (simp add: p_def power_int_add)
  have "x / p \<le> of_int (2 ^ 53)"
    using quantum_upper [OF assms] p unfolding s by (simp add: pos_divide_le_eq)
  then have "round_half_even (x / p) \<le> round_half_even (of_int (2 ^ 53))"
    by (rule round_half_even_mono)
  then have "round_half_even (x / p) \<le> 2 ^ 53"
    by (simp only: round_half_even_of_int)
  then have "(of_int (round_half_even (x / p)) :: real) \<le> of_int (2 ^ 53)"
    by (simp only: of_int_le_iff)
  then have "of_int (round_half_even (x / p)) * p \<le> of_int (2 ^ 53) * p"
    by (rule mult_right_mono) (use p in simp)
  then show ?thesis
    unfolding s using assms(1) by (simp add: round_double_pos p_def)
qed

lemma round_double_lower:
  assumes "0 < x" and "- 1074 < quantum x"
  shows "2 powi (quantum x + 52) \<le> round_double x"
proof -
  define p :: real where "p = 2 powi quantum x"
  have p: "0 < p"
    by (simp add: p_def)
  have s: "(2::real) powi (quantum x + 52) = 2 ^ 52 * p"
    by (simp add: p_def power_int_add)
  have "of_int (2 ^ 52) \<le> x / p"
    using quantum_lower [OF assms] p unfolding s by (simp add: pos_le_divide_eq)
  then have "round_half_even (of_int (2 ^ 52)) \<le> round_half_even (x / p)"
    by (rule round_half_even_mono)
  then have "2 ^ 52 \<le> round_half_even (x / p)"
    by (simp only: round_half_even_of_int)
  then have "(of_int (2 ^ 52) :: real) \<le> of_int (round_half_even (x / p))"
    by (simp only: of_int_le_iff)
  then have "of_int (2 ^ 52) * p \<le> of_int (round_half_even (x / p)) * p"
    by (rule mult_right_mono) (use p in simp)
  then show ?thesis
    unfolding s using assms(1) by (simp add: round_double_pos p_def)
qed

lemma round_double_mono:
  assumes "0 < x" and "x \<le> y" and "y < 2 ^ 1025"
  shows "round_double x \<le> round_double y"
proof (cases "quantum x = quantum y")
  case True
  define p :: real where "p = 2 powi quantum x"
  have p: "0 < p"
    by (simp add: p_def)
  have "x / p \<le> y / p"
    using assms(2) p by (simp add: divide_right_mono)
  then have "round_half_even (x / p) \<le> round_half_even (y / p)"
    by (rule round_half_even_mono)
  then have "of_int (round_half_even (x / p)) * p \<le> of_int (round_half_even (y / p)) * p"
    by (intro mult_right_mono) (use p in simp_all)
  then show ?thesis
    using assms True by (simp add: round_double_pos p_def)
next
  case False
  with quantum_mono [OF assms] have lt: "quantum x < quantum y"
    by simp
  have y: "0 < y"
    using assms by simp
  have "round_double x \<le> 2 powi (quantum x + 53)"
    by (rule round_double_upper) (use assms in simp_all)
  also have "\<dots> \<le> 2 powi (quantum y + 52)"
    by (rule power_int_increasing) (use lt in simp_all)
  also have "\<dots> \<le> round_double y"
    by (rule round_double_lower [OF y]) (use lt quantum_ge [of x] in linarith)
  finally show ?thesis .
qed

text \<open>
  The sum \<open>1.0 + d\<close> of a finite \<open>d \<ge> 0\<close> is a float from 1 to \<open>DBL_MAX\<close>, and the
  quotient of 1 by such a float is a positive float, at most 1.
\<close>

lemma round_double_1 [simp]: "round_double 1 = 1"
  by (simp add: round_double_def quantum_def log2_up_numeral round_half_even_def Let_def)

lemma round_double_tie: "round_double (1 + 1 / 2 ^ 53) = 1"
  by (simp add: round_double_def quantum_def log2_up_numeral round_half_even_def Let_def)

lemma quantum_1: "quantum 1 = - 52"
  by (simp add: quantum_def log2_up_numeral)

lemma DBL_MAX_less: "DBL_MAX < 2 ^ 1024"
proof -
  have "((2::real) ^ 53 - 1) * 2 ^ 971 < 2 ^ 53 * 2 ^ 971"
    by (rule mult_strict_right_mono) simp_all
  also have "\<dots> = 2 ^ (53 + 971)"
    by (simp only: power_add)
  finally show ?thesis
    by (simp add: DBL_MAX_def)
qed

lemma sum_in_range:
  assumes "0 \<le> d" and "d \<le> DBL_MAX"
  shows "1 \<le> 1 + d" "0 < 1 + d" "1 + d < 2 ^ 1025"
proof -
  show "1 \<le> 1 + d" "0 < 1 + d"
    using assms(1) by simp_all
  have "1 + d < 1 + 2 ^ 1024"
    using assms(2) DBL_MAX_less by linarith
  also have "\<dots> \<le> (2::real) ^ 1024 + 2 ^ 1024"
    by (simp add: two_realpow_ge_one)
  also have "\<dots> = 2 ^ Suc 1024"
    by (simp only: power_Suc mult_2)
  finally show "1 + d < 2 ^ 1025"
    by simp
qed

lemma round_double_DBL_MAX: "round_double (1 + DBL_MAX) = DBL_MAX"
proof -
  define x :: real where "x = 1 + DBL_MAX"
  have x1: "1 \<le> x" and x0: "0 < x"
    by (simp_all add: x_def DBL_MAX_def)
  have lo: "(2::real) ^ 1023 \<le> x"
  proof -
    have "(2::real) ^ 1023 = 2 ^ 52 * 2 ^ 971"
      by (simp only: power_add [symmetric]) simp
    also have "\<dots> \<le> (2 ^ 53 - 1) * 2 ^ 971"
      by (rule mult_right_mono) simp_all
    finally show ?thesis
      by (simp add: x_def DBL_MAX_def)
  qed
  have hi: "x < 2 ^ 1024"
  proof -
    have "x = 2 ^ 53 * 2 ^ 971 - (2 ^ 971 - 1)"
      by (simp add: x_def DBL_MAX_def algebra_simps)
    also have "\<dots> < (2::real) ^ 53 * 2 ^ 971"
      by (simp add: one_less_power)
    also have "\<dots> = 2 ^ 1024"
      by (simp only: power_add [symmetric]) simp
    finally show ?thesis .
  qed
  define k where "k = log2_up 1024 x"
  have "(2::real) ^ k \<le> x"
    unfolding k_def by (rule log2_up_lower [OF x1])
  with hi have "(2::real) ^ k < 2 ^ 1024"
    by linarith
  then have k1: "k < 1024"
    by (simp only: power_strict_increasing_iff [of "2::real"])
  have "x < 2 ^ Suc k"
    unfolding k_def by (rule log2_up_upper) (use hi in simp)
  with lo have "(2::real) ^ 1023 < 2 ^ Suc k"
    by linarith
  then have "1023 < Suc k"
    by (simp only: power_strict_increasing_iff [of "2::real"])
  with k1 have k: "k = 1023"
    by simp
  have q: "quantum x = 971"
    using x1 k by (simp add: quantum_def k_def)
  have fl: "\<lfloor>x / 2 ^ 971\<rfloor> = 2 ^ 53 - 1"
  proof (rule floor_unique)
    have e: "x / 2 ^ 971 = (2 ^ 53 - 1) + 1 / 2 ^ 971"
      by (simp add: x_def DBL_MAX_def field_simps)
    show "of_int (2 ^ 53 - 1) \<le> x / 2 ^ 971"
      unfolding e by simp
    show "x / 2 ^ 971 < of_int (2 ^ 53 - 1) + 1"
      unfolding e by (simp add: one_less_power)
  qed
  have fr: "x / 2 ^ 971 - of_int (2 ^ 53 - 1) = 1 / 2 ^ 971"
    by (simp add: x_def DBL_MAX_def field_simps)
  have "(1::real) / 2 ^ 971 < 1 / 2"
    by (simp add: one_less_power)
  then have "round_half_even (x / 2 ^ 971) = 2 ^ 53 - 1"
    unfolding round_half_even_def fl Let_def fr by simp
  then show ?thesis
    using x0 q unfolding x_def [symmetric]
    by (simp add: round_double_pos) (simp add: DBL_MAX_def)
qed

lemma round_double_smallest:
  assumes "2 powi (- 1074) \<le> x"
  shows "2 powi (- 1074) \<le> round_double x"
proof -
  have x: "0 < x"
    using assms by (rule less_le_trans [rotated]) simp
  show ?thesis
  proof (cases "- 1074 < quantum x")
    case True
    have "(2::real) powi (- 1074) \<le> 2 powi (quantum x + 52)"
      by (rule power_int_increasing) (use True in simp_all)
    also have "\<dots> \<le> round_double x"
      by (rule round_double_lower [OF x True])
    finally show ?thesis .
  next
    case False
    with quantum_ge [of x] have q: "quantum x = - 1074"
      by linarith
    define p :: real where "p = 2 powi (- 1074)"
    have p: "0 < p"
      by (simp add: p_def)
    have "of_int 1 \<le> x / p"
      using assms p by (simp add: p_def pos_le_divide_eq)
    then have "round_half_even (of_int 1) \<le> round_half_even (x / p)"
      by (rule round_half_even_mono)
    then have "1 \<le> round_half_even (x / p)"
      by (simp only: round_half_even_of_int)
    then have "(1::real) \<le> of_int (round_half_even (x / p))"
      by linarith
    then have "1 * p \<le> of_int (round_half_even (x / p)) * p"
      by (rule mult_right_mono) (use p in simp)
    then show ?thesis
      using x by (simp add: round_double_pos q p_def)
  qed
qed

lemma quantum_unit:
  assumes "0 < t" and "t \<le> 1"
  shows "quantum t \<le> - 52"
  using quantum_mono [OF assms(1,2)] by (simp add: quantum_1)

lemma sum_rounded:
  assumes "0 \<le> d" and "d \<le> DBL_MAX"
  shows "1 \<le> round_double (1 + d)" "round_double (1 + d) \<le> DBL_MAX"
    "\<bar>round_double (1 + d) - (1 + d)\<bar> \<le> (1 + d) / 2 ^ 53"
proof -
  note r = sum_in_range [OF assms]
  have "round_double 1 \<le> round_double (1 + d)"
    by (rule round_double_mono) (use r in simp_all)
  then show "1 \<le> round_double (1 + d)"
    by simp
  have "1 + DBL_MAX < 2 ^ 1025"
    by (rule sum_in_range(3)) (simp_all add: DBL_MAX_def)
  then have "round_double (1 + d) \<le> round_double (1 + DBL_MAX)"
    by (intro round_double_mono) (use r assms in simp_all)
  then show "round_double (1 + d) \<le> DBL_MAX"
    by (simp only: round_double_DBL_MAX)
  have "- 52 \<le> quantum (1 + d)"
    using quantum_mono [of 1 "1 + d"] r by (simp add: quantum_1)
  then have "- 1074 < quantum (1 + d)"
    by simp
  from quantum_lower [OF r(2) this]
  have "2 powi quantum (1 + d) * 2 ^ 52 \<le> 1 + d"
    by (simp add: power_int_add)
  then have "2 powi quantum (1 + d) / 2 \<le> (1 + d) / 2 ^ 53"
    by (simp add: field_simps)
  with round_double_near [OF r(2)]
  show "\<bar>round_double (1 + d) - (1 + d)\<bar> \<le> (1 + d) / 2 ^ 53"
    by linarith
qed

lemma quotient_rounded:
  assumes "1 \<le> s" and "s \<le> DBL_MAX"
  shows "0 < round_double (1 / s)" "round_double (1 / s) \<le> 1"
    "\<bar>round_double (1 / s) - 1 / s\<bar> \<le> 1 / 2 ^ 53"
proof -
  have s0: "0 < s"
    using assms(1) by linarith
  have t: "0 < 1 / s" "1 / s \<le> 1"
    using assms(1) by simp_all
  have le: "s \<le> 2 ^ 1074"
  proof -
    have "s < 2 ^ 1024"
      using assms(2) DBL_MAX_less by linarith
    also have "\<dots> \<le> (2::real) ^ 1074"
      by (rule power_increasing) simp_all
    finally show ?thesis
      by (rule less_imp_le)
  qed
  have e: "(2::real) powi (- 1074) = 1 / 2 ^ 1074"
    by (simp only: power_int_minus power_int_numeral inverse_eq_divide)
  have "1 / 2 ^ 1074 \<le> 1 / s"
    by (rule frac_le [OF _ _ s0 le]) simp_all
  then have "2 powi (- 1074) \<le> 1 / s"
    by (simp only: e)
  then have "2 powi (- 1074) \<le> round_double (1 / s)"
    by (rule round_double_smallest)
  then show "0 < round_double (1 / s)"
    by (rule less_le_trans [rotated]) simp
  have "round_double (1 / s) \<le> round_double 1"
    by (rule round_double_mono) (use t in simp_all)
  then show "round_double (1 / s) \<le> 1"
    by simp
  have "quantum (1 / s) \<le> - 52"
    by (rule quantum_unit [OF t])
  then have "(2::real) powi quantum (1 / s) \<le> 2 powi (- 52)"
    by (intro power_int_increasing) simp_all
  moreover have "(2::real) powi (- 52) = 1 / 2 ^ 52"
    by (simp only: power_int_minus power_int_numeral inverse_eq_divide)
  ultimately have "(2::real) powi quantum (1 / s) / 2 \<le> 1 / 2 ^ 53"
    by simp
  with round_double_near [OF t(1)]
  show "\<bar>round_double (1 / s) - 1 / s\<bar> \<le> 1 / 2 ^ 53"
    by linarith
qed

lemma score_bounds:
  assumes "0 \<le> d" and "d \<le> DBL_MAX"
  shows "0 < score_from_distance d" "score_from_distance d \<le> 1"
    "\<bar>score_from_distance d - 1 / (1 + d)\<bar> \<le> 1 / 2 ^ 52"
proof -
  define x where "x = 1 + d"
  define s where "s = round_double x"
  note r = sum_rounded [OF assms, folded x_def s_def]
  note q = quotient_rounded [OF r(1,2)]
  have sc: "score_from_distance d = round_double (1 / s)"
    by (simp add: score_from_distance_def s_def x_def)
  show "0 < score_from_distance d" "score_from_distance d \<le> 1"
    using q(1,2) by (simp_all add: sc)
  have x: "1 \<le> x"
    using assms(1) by (simp add: x_def)
  have "1 / s - 1 / x = (x - s) / (s * x)"
    using x r(1) by (simp add: field_simps)
  then have "\<bar>1 / s - 1 / x\<bar> = \<bar>s - x\<bar> / (s * x)"
    using x r(1) by (simp add: abs_minus_commute)
  also have "\<dots> \<le> (x / 2 ^ 53) / (s * x)"
    by (rule divide_right_mono [OF r(3)]) (use x r(1) in simp)
  also have "\<dots> = 1 / 2 ^ 53 / s"
    using x by simp
  also have "\<dots> \<le> 1 / 2 ^ 53 / 1"
    by (rule frac_le [OF _ _ _ r(1)]) simp_all
  finally have "\<bar>1 / s - 1 / x\<bar> \<le> 1 / 2 ^ 53"
    by simp
  with q(3) have "\<bar>round_double (1 / s) - 1 / x\<bar> \<le> 1 / 2 ^ 53 + 1 / 2 ^ 53"
    by linarith
  then show "\<bar>score_from_distance d - 1 / (1 + d)\<bar> \<le> 1 / 2 ^ 52"
    by (simp add: sc x_def)
qed

lemma score_mono:
  assumes "0 \<le> d" and "d \<le> d'" and "d' \<le> DBL_MAX"
  shows "score_from_distance d' \<le> score_from_distance d"
proof -
  have d: "d \<le> DBL_MAX" and d': "0 \<le> d'"
    using assms by simp_all
  note r = sum_rounded [OF assms(1) d]
  note r' = sum_rounded [OF d' assms(3)]
  have "round_double (1 + d) \<le> round_double (1 + d')"
    by (rule round_double_mono [OF _ _ sum_in_range(3) [OF d' assms(3)]])
      (use assms in simp_all)
  then have "1 / round_double (1 + d') \<le> 1 / round_double (1 + d)"
    using r(1) by (simp add: frac_le)
  moreover have "0 < 1 / round_double (1 + d')"
    using r'(1) by simp
  moreover have "1 / round_double (1 + d) < 2 ^ 1025"
  proof -
    have "1 / round_double (1 + d) \<le> 1"
      using r(1) by simp
    also have "(1::real) < 2 ^ 1025"
      by (rule one_less_power) simp_all
    finally show ?thesis .
  qed
  ultimately show ?thesis
    unfolding score_from_distance_def by (intro round_double_mono)
qed

lemma score_one:
  assumes "0 \<le> d" and "d \<le> 1 / 2 ^ 53"
  shows "score_from_distance d = 1"
proof -
  have two: "(2::real) < 2 ^ 1025"
    using power_strict_increasing [of 1 1025 "2::real"] by (simp only: power_one_right)
  have "1 + d \<le> 2"
    using assms(2) by (rule order_trans [OF add_left_mono]) simp
  then have "1 + d < 2 ^ 1025"
    using two by (rule le_less_trans)
  then have "round_double 1 \<le> round_double (1 + d)"
    by (intro round_double_mono) (use assms(1) in simp_all)
  then have lo: "1 \<le> round_double (1 + d)"
    by (simp only: round_double_1)
  have "round_double (1 + d) \<le> round_double (1 + 1 / 2 ^ 53)"
  proof (rule round_double_mono)
    have "1 + 1 / 2 ^ 53 \<le> (2::real)"
      by simp
    then show "1 + 1 / 2 ^ 53 < (2::real) ^ 1025"
      using two by (rule le_less_trans)
  qed (use assms in simp_all)
  then have "round_double (1 + d) \<le> 1"
    by (simp only: round_double_tie)
  with lo have "round_double (1 + d) = 1"
    by (rule antisym [rotated])
  then show ?thesis
    by (simp add: score_from_distance_def)
qed

text \<open>
  Claim C7, as amended. For every finite distance \<open>d \<ge> 0\<close> the score computed by
  \<open>score_from_distance\<close> is \<open>1 / (1 + d)\<close> as float arithmetic gives it: the sum is rounded
  to a float, which lies between 1 and \<open>DBL_MAX\<close>, and the quotient of 1 by it is rounded;
  the score differs from the real number \<open>1 / (1 + d)\<close> by at most \<open>2 ^ - 52\<close>. The score
  lies in the interval \<open>(0, 1]\<close>; it does not increase with \<open>d\<close>: a larger distance \<open>d'\<close>
  has a score that is smaller or the same; and it is exactly 1 at \<open>d = 0\<close>, as it is at
  every \<open>d\<close> up to \<open>2 ^ - 53\<close>.
\<close>

theorem score_from_distance_nonincreasing_unit_interval:
  assumes "0 \<le> d" and "d \<le> d'" and "d' \<le> DBL_MAX"
  shows "score_from_distance d = round_double (1 / round_double (1 + d))
       \<and> 1 \<le> round_double (1 + d) \<and> round_double (1 + d) \<le> DBL_MAX
       \<and> \<bar>score_from_distance d - 1 / (1 + d)\<bar> \<le> 1 / 2 ^ 52
       \<and> 0 < score_from_distance d \<and> score_from_distance d \<le> 1
       \<and> 0 < score_from_distance d' \<and> score_from_distance d' \<le> 1
       \<and> score_from_distance d' \<le> score_from_distance d
       \<and> score_from_distance 0 = 1
       \<and> (d \<le> 1 / 2 ^ 53 \<longrightarrow> score_from_distance d = 1)"
proof -
  have d: "d \<le> DBL_MAX" and d': "0 \<le> d'"
    using assms by simp_all
  have "score_from_distance 0 = 1"
    by (simp add: score_from_distance_def)
  moreover have "d \<le> 1 / 2 ^ 53 \<longrightarrow> score_from_distance d = 1"
    using score_one [OF assms(1)] by blast
  moreover have "score_from_distance d = round_double (1 / round_double (1 + d))"
    by (simp add: score_from_distance_def)
  moreover note sum_rounded(1,2) [OF assms(1) d] score_bounds [OF assms(1) d]
    score_bounds(1,2) [OF d' assms(3)] score_mono [OF assms]
  ultimately show ?thesis
    by (intro conjI)
qed

text \<open>The theorem at the distances 1 and 3, whose scores \<open>1 / 2\<close> and \<open>1 / 4\<close> are exact.\<close>

lemma score_values:
  "score_from_distance 1 = 1 / 2" "score_from_distance 3 = 1 / 4"
  "score_from_distance (1 / 2 ^ 60) = 1"
  "score_from_distance (5404319552844595 / 2 ^ 54) = 866076851417403 / 2 ^ 50"
  "score_from_distance (5404319552844596 / 2 ^ 54) = 866076851417403 / 2 ^ 50"
  by (simp_all add: score_from_distance_def round_double_def quantum_def log2_up_numeral
      log2_down_numeral round_half_even_def Let_def)

theorem score_from_distance_nonincreasing_unit_interval_witness:
  "(0::real) \<le> 1 \<and> (1::real) \<le> 3 \<and> 3 \<le> DBL_MAX
   \<and> score_from_distance 1 = 1 / 2 \<and> score_from_distance 3 = 1 / 4
   \<and> score_from_distance 3 \<le> score_from_distance 1
   \<and> \<bar>score_from_distance 1 - 1 / (1 + 1)\<bar> \<le> 1 / 2 ^ 52
   \<and> 0 < score_from_distance 3 \<and> score_from_distance 1 \<le> 1
   \<and> score_from_distance 0 = 1"
proof -
  have m: "3 \<le> DBL_MAX"
    by (simp add: DBL_MAX_def)
  from score_from_distance_nonincreasing_unit_interval [of 1 3] m score_values(1,2)
  show ?thesis
    by simp
qed

text \<open>
  Claim C7 as stated fails: the distance \<open>2 ^ - 60\<close> is positive and its score is 1, the
  score of the distance 0 and not the number \<open>1 / (1 + 2 ^ - 60)\<close>; and the float \<open>0.3\<close>
  and the next float above it have the same score.
\<close>

theorem score_from_distance_strict_counterexample:
  "(0::real) < 1 / 2 ^ 60
   \<and> score_from_distance 0 = 1
   \<and> score_from_distance (1 / 2 ^ 60) = 1
   \<and> \<not> score_from_distance (1 / 2 ^ 60) < score_from_distance 0
   \<and> score_from_distance (1 / 2 ^ 60) \<noteq> 1 / (1 + 1 / 2 ^ 60)
   \<and> (5404319552844595::real) / 2 ^ 54 < 5404319552844596 / 2 ^ 54
   \<and> score_from_distance (5404319552844595 / 2 ^ 54) = 866076851417403 / 2 ^ 50
   \<and> score_from_distance (5404319552844596 / 2 ^ 54) = 866076851417403 / 2 ^ 50"
proof -
  have "score_from_distance 0 = 1"
    by (simp add: score_from_distance_def)
  with score_values(3,4,5) show ?thesis
    by simp
qed


subsection \<open>The streaming response\<close>

text \<open>
  Claim C8, as amended. For every answer text and metadata object, \<open>stream_answer\<close>
  yields, each formatted as \<open>"data: " + JSON + "\n\n"\<close>: one token-delta event per piece
  of \<^verbatim>\<open>text.split(" ")\<close>, that is, per piece of the answer cut at every single space
  \<open>U+0020\<close> (a piece may be empty and may hold other white space; the pieces joined by
  single spaces are the answer, no piece holds a space, and there is one piece more than
  there are spaces), each carrying \<open>{content: piece}\<close> with a trailing space on every piece
  except the last, so that the concatenated delta contents are the answer; then one
  metadata event whose delta carries the metadata object, with finish reason
  \<open>"metadata"\<close>; then the terminal literal \<open>"data: [DONE]\n\n"\<close>.
\<close>

theorem stream_answer_events:
  "(let ws = split_space text;
        chunk_id = lit ''chatcmpl-'' @ uuid1;
        contents = map (\<lambda>w. w @ lit '' '') (butlast ws) @ [last ws]
    in stream_answer dumps uuid1 uuid2 text metadata
         = map (\<lambda>c. lit ''data: '' @ dumps (token_payload chunk_id c) @ [10, 10]) contents
           @ [lit ''data: '' @ dumps (meta_payload (lit ''meta-'' @ uuid2) metadata) @ [10, 10],
              lit ''data: [DONE]'' @ [10, 10]]
       \<and> concat contents = text
       \<and> join (lit '' '') ws = text
       \<and> (\<forall>w \<in> set ws. 32 \<notin> set w)
       \<and> length ws = Suc (length (filter (\<lambda>c. c = 32) text)))
   \<and> (\<forall>chunk_id c. token_payload chunk_id c =
         JObj [(lit ''id'', JStr chunk_id),
               (lit ''object'', JStr (lit ''chat.completion.chunk'')),
               (lit ''choices'',
                  JList [JObj [(lit ''index'', JInt 0),
                               (lit ''delta'', JObj [(lit ''content'', JStr c)]),
                               (lit ''finish_reason'', JNull)]])])
   \<and> (\<forall>meta_id. meta_payload meta_id metadata =
         JObj [(lit ''id'', JStr meta_id),
               (lit ''object'', JStr (lit ''chat.completion.chunk'')),
               (lit ''choices'',
                  JList [JObj [(lit ''index'', JInt 0),
                               (lit ''delta'', JObj [(lit ''metadata'', metadata)]),
                               (lit ''finish_reason'', JStr (lit ''metadata''))]])])"
proof -
  define ws where "ws = split_by (\<lambda>c. c = 32) text"
  have ne: "ws \<noteq> []"
    by (simp add: ws_def split_by_nonempty)
  have ev: "stream_answer dumps uuid1 uuid2 text metadata
      = map (\<lambda>c. lit ''data: '' @ dumps (token_payload (lit ''chatcmpl-'' @ uuid1) c) @ [10, 10])
          (map (\<lambda>w. w @ [32]) (butlast ws) @ [last ws])
        @ [lit ''data: '' @ dumps (meta_payload (lit ''meta-'' @ uuid2) metadata) @ [10, 10],
           lit ''data: [DONE]'' @ [10, 10]]"
    unfolding stream_answer_def Let_def delta_content_def lit_space split_space_def
      sse_event_def done_event_def
    using enumerate_trailing [where f = "\<lambda>c. lit ''data: '' @ dumps (token_payload (lit ''chatcmpl-'' @ uuid1) c) @ [10, 10]"
        and k = 32 and n = 0 and ws = ws] ne
    by (simp add: ws_def comp_def)
  have cc: "concat (map (\<lambda>w. w @ [32]) (butlast ws) @ [last ws]) = text"
    using concat_trailing [OF ne, of "[32]"] join_split_by [of 32 "text"]
    by (simp add: ws_def)
  have jn: "join [32] ws = text"
    using join_split_by [of 32 "text"] by (simp add: ws_def)
  have ns: "\<forall>w \<in> set ws. 32 \<notin> set w"
    using split_by_no_sep [of _ "\<lambda>c. c = 32" "text" 32] by (auto simp: ws_def)
  have ln: "length ws = Suc (length (filter (\<lambda>c. c = 32) text))"
    by (simp add: ws_def length_split_by)
  from ev cc jn ns ln show ?thesis
    unfolding Let_def lit_space split_space_def ws_def [symmetric]
    by (simp add: token_payload_def meta_payload_def)
qed

text \<open>
  The theorem at the answer \<open>"a  b"\<close> (two spaces): three delta events, then the metadata
  event and the terminal literal.
\<close>

theorem stream_answer_events_witness:
  "stream_answer (\<lambda>j. []) [] [] (lit ''a  b'') JNull
     = [lit ''data: '' @ [10, 10], lit ''data: '' @ [10, 10], lit ''data: '' @ [10, 10],
        lit ''data: '' @ [10, 10], lit ''data: [DONE]'' @ [10, 10]]
   \<and> split_space (lit ''a  b'') = [lit ''a'', [], lit ''b'']
   \<and> lit ''a'' \<in> set (split_space (lit ''a  b'')) \<and> 32 \<notin> set (lit ''a'')"
  using stream_answer_events [of "lit ''a  b''" "[]" "\<lambda>j. []" "[]" JNull]
  by (simp add: Let_def split_space_def lit_def)

text \<open>
  Claim C8 as stated fails: the answer \<open>"a  b"\<close> has two whitespace-split words, and
  \<open>stream_answer\<close> yields three token-delta events for it (contents \<open>"a "\<close>, \<open>" "\<close> and
  \<open>"b"\<close>), five events in all where the claim's wording gives four.
\<close>

theorem stream_answer_spec_counterexample:
  "stream_answer (\<lambda>j. []) [] [] (lit ''a  b'') JNull
     \<noteq> stream_answer_spec (\<lambda>j. []) [] [] (lit ''a  b'') JNull
   \<and> length (stream_answer (\<lambda>j. []) [] [] (lit ''a  b'') JNull) = 5
   \<and> length (stream_answer_spec (\<lambda>j. []) [] [] (lit ''a  b'') JNull) = 4
   \<and> whitespace_words (lit ''a  b'') = [lit ''a'', lit ''b'']"
  by (simp add: stream_answer_def stream_answer_spec_def whitespace_words_def split_space_def
      Let_def lit_def isspace_def)

subsection \<open>The session store\<close>

lemma uuid4_fields [simp]:
  "messages (snd (uuid4 e d)) = messages d"
  "sessions (snd (uuid4 e d)) = sessions d"
  "session_messages (snd (uuid4 e d)) = session_messages d"
  "conversations (snd (uuid4 e d)) = conversations d"
  by (simp_all add: uuid4_def)

lemma utcnow_fields [simp]:
  "messages (snd (utcnow e d)) = messages d"
  "sessions (snd (utcnow e d)) = sessions d"
  "session_messages (snd (utcnow e d)) = session_messages d"
  "conversations (snd (utcnow e d)) = conversations d"
  by (simp_all add: utcnow_def)

lemma ensure_conversation_fields [simp]:
  "messages (ensure_conversation e c t d) = messages d"
  "sessions (ensure_conversation e c t d) = sessions d"
  "session_messages (ensure_conversation e c t d) = session_messages d"
  by (simp_all add: ensure_conversation_def utcnow_def Let_def)

lemma persist_conversation_metadata_fields [simp]:
  "messages (persist_conversation_metadata e s m c d) = messages d"
  "session_messages (persist_conversation_metadata e s m c d) = session_messages d"
  by (simp_all add: persist_conversation_metadata_def utcnow_def Let_def)

lemma conversation_id_for_session_fields [simp]:
  "messages (snd (conversation_id_for_session e s m d)) = messages d"
  "session_messages (snd (conversation_id_for_session e s m d)) = session_messages d"
  by (simp_all add: conversation_id_for_session_def uuid4_def Let_def
      split: option.splits prod.splits)

lemma link_session_message_messages [simp]:
  "messages (link_session_message e s m i d) = messages d"
  by (simp add: link_session_message_def utcnow_def Let_def)

lemma insert_message_messages:
  "messages (snd (insert_message e c role content idx d)) =
     messages d @ [\<lparr>m_id = fst (insert_message e c role content idx d),
                    m_conversation_id = Some c, m_role = role, m_idx_in_conv = idx,
                    m_create_time = Some (utcnow_at e (ticks d)),
                    m_update_time = Some (utcnow_at e (ticks d)),
                    m_content_text = Some (take MAX_CONTENT_LEN (strip content)),
                    m_raw = JObj [(lit ''created_by'', JStr (lit ''chat_api'')),
                                  (lit ''role'', JStr role)]\<rparr>]"
  by (simp add: insert_message_def uuid4_def utcnow_def Let_def)

lemma append_turn_messages:
  assumes "append_turn e sid u a d = (Inr res, d')"
  shows "\<exists>um am. messages d' = messages d @ [um, am]
          \<and> m_id um = r_user_message_id res \<and> m_id am = r_assistant_message_id res
          \<and> m_role um = lit ''user'' \<and> m_role am = lit ''assistant''
          \<and> m_conversation_id um = Some (r_conversation_id res)
          \<and> m_conversation_id am = Some (r_conversation_id res)
          \<and> m_content_text um = Some (take MAX_CONTENT_LEN (strip u))
          \<and> m_content_text am = Some (take MAX_CONTENT_LEN (strip a))"
  using assms
  by (auto simp: append_turn_def Let_def case_prod_beta insert_message_messages
      split: sum.splits if_splits)

lemma append_turn_error_unchanged:
  assumes "append_turn e sid u a d = (Inl err, d')"
  shows "d' = d"
  using assms
  by (auto simp: append_turn_def Let_def case_prod_beta split: sum.splits if_splits)

lemma append_turn_open:
  assumes "append_turn e sid u a d = (Inr res, d')"
  shows "\<exists>row. find (\<lambda>r. s_id r = sid) (sessions d) = Some row \<and> \<not> s_archived row
           \<and> r_session_id res = sid"
  using assms
  by (auto simp: append_turn_def fetch_session_row_def Let_def case_prod_beta
      split: option.splits if_splits)


lemma append_turn_open_returns:
  assumes "find (\<lambda>r. s_id r = sid) (sessions d) = Some row" and "\<not> s_archived row"
  shows "\<exists>res d'. append_turn e sid u a d = (Inr res, d')"
  using assms
  by (simp add: append_turn_def fetch_session_row_def Let_def case_prod_beta)

lemma append_turn_archived:
  assumes "find (\<lambda>r. s_id r = sid) (sessions d) = Some row" and "s_archived row"
  shows "append_turn e sid u a d = (Inl ValueError, d)"
  using assms by (simp add: append_turn_def fetch_session_row_def)

lemma append_turn_missing:
  assumes "find (\<lambda>r. s_id r = sid) (sessions d) = None"
  shows "append_turn e sid u a d = (Inl SessionNotFound, d)"
  using assms by (simp add: append_turn_def fetch_session_row_def)

subsection \<open>Stored message content\<close>

lemma demo_append:
  "append_turn demo_env (lit ''s1'') (lit '' q '') (lit '' hi '') demo_db
   = (Inr \<lparr>r_session_id = lit ''s1'', r_conversation_id = lit ''c1'',
           r_user_message_id = lit ''u0'', r_assistant_message_id = lit ''u1''\<rparr>,
      snd (append_turn demo_env (lit ''s1'') (lit '' q '') (lit '' hi '') demo_db))"
  by (simp add: append_turn_def fetch_session_row_def demo_db_def demo_env_def Let_def
      case_prod_beta lit_def conversation_id_for_session_def conversation_from_metadata_def
      insert_message_def uuid4_def utcnow_def link_session_message_def ensure_conversation_def)

text \<open>
  Claim C10. Every message row written through \<open>append_turn\<close> holds its content
  stripped of surrounding white space and then cut to at most 32,000 code points
  (\<open>MAX_CONTENT_LEN\<close>): a successful call appends exactly two message rows, the user's
  and the assistant's, whose contents are the first 32,000 code points of the stripped
  texts, whatever the length of the texts passed in; a failing call leaves the
  messages as they were.
\<close>

theorem append_turn_stores_truncated:
  "(\<forall>err d'. append_turn e sid u a d = (Inl err, d') \<longrightarrow> messages d' = messages d)
   \<and> (\<forall>res d'. append_turn e sid u a d = (Inr res, d') \<longrightarrow>
        (\<exists>um am cu ca.
           messages d' = messages d @ [um, am]
         \<and> m_id um = r_user_message_id res \<and> m_id am = r_assistant_message_id res
         \<and> m_content_text um = Some cu \<and> m_content_text am = Some ca
         \<and> cu = take 32000 (strip u) \<and> ca = take 32000 (strip a)
         \<and> length cu \<le> 32000 \<and> length ca \<le> 32000
         \<and> MAX_CONTENT_LEN = 32000))"
proof (intro conjI allI impI)
  fix err d'
  assume "append_turn e sid u a d = (Inl err, d')"
  then show "messages d' = messages d"
    using append_turn_error_unchanged by blast
next
  fix res d'
  assume "append_turn e sid u a d = (Inr res, d')"
  from append_turn_messages [OF this]
  show "\<exists>um am cu ca.
           messages d' = messages d @ [um, am]
         \<and> m_id um = r_user_message_id res \<and> m_id am = r_assistant_message_id res
         \<and> m_content_text um = Some cu \<and> m_content_text am = Some ca
         \<and> cu = take 32000 (strip u) \<and> ca = take 32000 (strip a)
         \<and> length cu \<le> 32000 \<and> length ca \<le> 32000
         \<and> MAX_CONTENT_LEN = 32000"
    by (auto simp: MAX_CONTENT_LEN_def)
qed

text \<open>The theorem at a call on the small database, with contents \<open>" q "\<close> and \<open>" hi "\<close>.\<close>

theorem append_turn_stores_truncated_witness:
  "fst (append_turn demo_env (lit ''s1'') (lit '' q '') (lit '' hi '') demo_db)
     = Inr \<lparr>r_session_id = lit ''s1'', r_conversation_id = lit ''c1'',
            r_user_message_id = lit ''u0'', r_assistant_message_id = lit ''u1''\<rparr>
   \<and> map m_content_text
        (messages (snd (append_turn demo_env (lit ''s1'') (lit '' q '') (lit '' hi '') demo_db)))
     = [Some (lit ''q''), Some (lit ''hi'')]"
proof -
  let ?r = "append_turn demo_env (lit ''s1'') (lit '' q '') (lit '' hi '') demo_db"
  have st: "strip (lit '' q '') = lit ''q''" "strip (lit '' hi '') = lit ''hi''"
    by (simp_all add: strip_def isspace_def lit_def)
  have em: "messages demo_db = []"
    by (simp add: demo_db_def)
  have res: "fst ?r = Inr \<lparr>r_session_id = lit ''s1'', r_conversation_id = lit ''c1'',
            r_user_message_id = lit ''u0'', r_assistant_message_id = lit ''u1''\<rparr>"
    using demo_append by (metis fst_conv)
  obtain um am where "messages (snd ?r) = messages demo_db @ [um, am]"
    and "m_content_text um = Some (take 32000 (strip (lit '' q '')))"
    and "m_content_text am = Some (take 32000 (strip (lit '' hi '')))"
    using append_turn_stores_truncated [of demo_env "lit ''s1''" "lit '' q ''" "lit '' hi ''" demo_db]
      demo_append by blast
  then have "map m_content_text (messages (snd ?r)) = [Some (lit ''q''), Some (lit ''hi'')]"
    using st em by (simp add: lit_def)
  with res show ?thesis
    by blast
qed

subsection \<open>Outcomes of append\_turn\<close>

lemma demo_find:
  "find (\<lambda>r. s_id r = lit ''s2'') (sessions demo_db) = Some (sessions demo_db ! 1)"
  "s_archived (sessions demo_db ! 1)"
  "find (\<lambda>r. s_id r = lit ''s1'') (sessions demo_db) = Some (sessions demo_db ! 0)"
  "\<not> s_archived (sessions demo_db ! 0)"
  "find (\<lambda>r. s_id r = lit ''s3'') (sessions demo_db) = None"
  by (simp_all add: demo_db_def lit_def)

text \<open>
  Claim C9, as amended. \<open>append_turn\<close> fails and writes nothing (the database is the one
  it was given) when the session is archived (\<open>ValueError\<close>), as it does when the session
  does not exist (\<open>SessionNotFound\<close>). It does not fail because a content is empty after
  trimming: it makes no such test, and a call that succeeds still succeeds when either
  content is replaced by one that is empty after trimming. When it succeeds, the session exists and is not
  archived, and it returns the four identifiers: the session id passed in, the
  conversation id of the two message rows it appended, and the ids of the user and the
  assistant message row, whose contents are the texts stripped and cut. The rejection of a
  user or assistant text that is empty after trimming is made by the caller \<open>persist_turn\<close>
  (\<^verbatim>\<open>AgentService._persist_turn\<close>), with status 400 for the user text and 502 for the
  assistant text, before any call to the persistence interface.
\<close>

theorem append_turn_outcomes:
  "(find (\<lambda>r. s_id r = sid) (sessions d) = None
      \<longrightarrow> append_turn e sid u a d = (Inl SessionNotFound, d))
   \<and> (\<forall>row. find (\<lambda>r. s_id r = sid) (sessions d) = Some row \<and> s_archived row
      \<longrightarrow> append_turn e sid u a d = (Inl ValueError, d))
   \<and> (\<forall>res d'. append_turn e sid u a d = (Inr res, d')
      \<longrightarrow> (\<exists>row um am.
             find (\<lambda>r. s_id r = sid) (sessions d) = Some row \<and> \<not> s_archived row
           \<and> r_session_id res = sid
           \<and> messages d' = messages d @ [um, am]
           \<and> m_id um = r_user_message_id res \<and> m_id am = r_assistant_message_id res
           \<and> m_conversation_id um = Some (r_conversation_id res)
           \<and> m_conversation_id am = Some (r_conversation_id res)
           \<and> m_content_text um = Some (take MAX_CONTENT_LEN (strip u))
           \<and> m_content_text am = Some (take MAX_CONTENT_LEN (strip a))))
   \<and> (\<forall>res d' u' a'. append_turn e sid u a d = (Inr res, d')
           \<and> (strip u' = [] \<or> u' = u) \<and> (strip a' = [] \<or> a' = a)
      \<longrightarrow> (\<exists>res' d''. append_turn e sid u' a' d = (Inr res', d'')))
   \<and> (strip u = [] \<longrightarrow> persist_turn e s u a d = ([], Inl (HTTPException 400), d))
   \<and> (strip u \<noteq> [] \<and> strip a = []
      \<longrightarrow> persist_turn e s u a d = ([], Inl (HTTPException 502), d))"
proof (intro conjI allI impI)
  assume "find (\<lambda>r. s_id r = sid) (sessions d) = None"
  then show "append_turn e sid u a d = (Inl SessionNotFound, d)"
    by (rule append_turn_missing)
next
  fix row
  assume "find (\<lambda>r. s_id r = sid) (sessions d) = Some row \<and> s_archived row"
  then show "append_turn e sid u a d = (Inl ValueError, d)"
    using append_turn_archived by blast
next
  fix res d'
  assume r: "append_turn e sid u a d = (Inr res, d')"
  from append_turn_open [OF r] obtain row where
    o: "find (\<lambda>r. s_id r = sid) (sessions d) = Some row" "\<not> s_archived row"
       "r_session_id res = sid"
    by blast
  from append_turn_messages [OF r] obtain um am where
    "messages d' = messages d @ [um, am]"
    "m_id um = r_user_message_id res" "m_id am = r_assistant_message_id res"
    "m_conversation_id um = Some (r_conversation_id res)"
    "m_conversation_id am = Some (r_conversation_id res)"
    "m_content_text um = Some (take MAX_CONTENT_LEN (strip u))"
    "m_content_text am = Some (take MAX_CONTENT_LEN (strip a))"
    by blast
  with o show "\<exists>row um am.
             find (\<lambda>r. s_id r = sid) (sessions d) = Some row \<and> \<not> s_archived row
           \<and> r_session_id res = sid
           \<and> messages d' = messages d @ [um, am]
           \<and> m_id um = r_user_message_id res \<and> m_id am = r_assistant_message_id res
           \<and> m_conversation_id um = Some (r_conversation_id res)
           \<and> m_conversation_id am = Some (r_conversation_id res)
           \<and> m_content_text um = Some (take MAX_CONTENT_LEN (strip u))
           \<and> m_content_text am = Some (take MAX_CONTENT_LEN (strip a))"
    by (intro exI [of _ row] exI [of _ um] exI [of _ am]) simp
next
  fix res d' u' a'
  assume "append_turn e sid u a d = (Inr res, d')
           \<and> (strip u' = [] \<or> u' = u) \<and> (strip a' = [] \<or> a' = a)"
  then have "append_turn e sid u a d = (Inr res, d')"
    by blast
  from append_turn_open [OF this] obtain row where
    "find (\<lambda>r. s_id r = sid) (sessions d) = Some row" "\<not> s_archived row"
    by blast
  then show "\<exists>res' d''. append_turn e sid u' a' d = (Inr res', d'')"
    by (rule append_turn_open_returns)
next
  assume "strip u = []"
  then show "persist_turn e s u a d = ([], Inl (HTTPException 400), d)"
    by (simp add: persist_turn_def)
next
  assume "strip u \<noteq> [] \<and> strip a = []"
  then show "persist_turn e s u a d = ([], Inl (HTTPException 502), d)"
    by (simp add: persist_turn_def)
qed

text \<open>
  The theorem on the small database: a missing, an archived and an open session, and
  blank texts.
\<close>

theorem append_turn_outcomes_witness:
  "append_turn demo_env (lit ''s3'') (lit ''q'') (lit ''hi'') demo_db = (Inl SessionNotFound, demo_db)
   \<and> append_turn demo_env (lit ''s2'') (lit ''q'') (lit ''hi'') demo_db = (Inl ValueError, demo_db)
   \<and> (\<exists>res d' um am.
         append_turn demo_env (lit ''s1'') (lit '' q '') (lit '' hi '') demo_db = (Inr res, d')
       \<and> res = \<lparr>r_session_id = lit ''s1'', r_conversation_id = lit ''c1'',
                 r_user_message_id = lit ''u0'', r_assistant_message_id = lit ''u1''\<rparr>
       \<and> messages d' = messages demo_db @ [um, am]
       \<and> m_id um = lit ''u0'' \<and> m_id am = lit ''u1'')
   \<and> (\<exists>res d'. append_turn demo_env (lit ''s1'') (lit ''  '') (lit '' hi '') demo_db
                   = (Inr res, d'))
   \<and> strip (lit ''  '') = []
   \<and> persist_turn demo_env None (lit ''  '') (lit ''hi'') demo_db
        = ([], Inl (HTTPException 400), demo_db)
   \<and> strip (lit ''q'') \<noteq> []
   \<and> persist_turn demo_env None (lit ''q'') (lit ''  '') demo_db
        = ([], Inl (HTTPException 502), demo_db)"
proof -
  have st: "strip (lit ''  '') = []" "strip (lit ''q'') \<noteq> []"
    by (simp_all add: strip_def isspace_def lit_def)
  have a: "append_turn demo_env (lit ''s3'') (lit ''q'') (lit ''hi'') demo_db
             = (Inl SessionNotFound, demo_db)"
    using append_turn_outcomes [of "lit ''s3''" demo_db demo_env "lit ''q''" "lit ''hi''" None]
      demo_find(5) by simp
  have b: "append_turn demo_env (lit ''s2'') (lit ''q'') (lit ''hi'') demo_db
             = (Inl ValueError, demo_db)"
    using append_turn_outcomes [of "lit ''s2''" demo_db demo_env "lit ''q''" "lit ''hi''" None]
      demo_find(1,2) by simp
  let ?res = "\<lparr>r_session_id = lit ''s1'', r_conversation_id = lit ''c1'',
                 r_user_message_id = lit ''u0'', r_assistant_message_id = lit ''u1''\<rparr>"
  let ?d' = "snd (append_turn demo_env (lit ''s1'') (lit '' q '') (lit '' hi '') demo_db)"
  note t = append_turn_outcomes
      [of "lit ''s1''" demo_db demo_env "lit '' q ''" "lit '' hi ''" None,
       THEN conjunct2, THEN conjunct2, THEN conjunct1, rule_format, OF demo_append]
  from t obtain um am where
    "messages ?d' = messages demo_db @ [um, am]"
    "m_id um = r_user_message_id ?res" "m_id am = r_assistant_message_id ?res"
    by blast
  then have c: "\<exists>res d' um am.
         append_turn demo_env (lit ''s1'') (lit '' q '') (lit '' hi '') demo_db = (Inr res, d')
       \<and> res = ?res
       \<and> messages d' = messages demo_db @ [um, am]
       \<and> m_id um = lit ''u0'' \<and> m_id am = lit ''u1''"
    using demo_append by (intro exI [of _ ?res] exI [of _ ?d'] exI [of _ um] exI [of _ am]) simp
  have c': "\<exists>res d'. append_turn demo_env (lit ''s1'') (lit ''  '') (lit '' hi '') demo_db
                   = (Inr res, d')"
    by (rule append_turn_outcomes
      [of "lit ''s1''" demo_db demo_env "lit '' q ''" "lit '' hi ''" None,
       THEN conjunct2, THEN conjunct2, THEN conjunct2, THEN conjunct1, rule_format])
      (use demo_append st(1) in blast)
  have d: "persist_turn demo_env None (lit ''  '') (lit ''hi'') demo_db
        = ([], Inl (HTTPException 400), demo_db)"
    using append_turn_outcomes [of "lit ''s1''" demo_db demo_env "lit ''  ''" "lit ''hi''" None]
      st(1) by simp
  have e: "persist_turn demo_env None (lit ''q'') (lit ''  '') demo_db
        = ([], Inl (HTTPException 502), demo_db)"
    using append_turn_outcomes [of "lit ''s1''" demo_db demo_env "lit ''q''" "lit ''  ''" None]
      st by simp
  from a b c c' d e st show ?thesis
    by (intro conjI)
qed


text \<open>
  Claim C9 as stated fails: on the open session \<open>s1\<close>, \<open>append_turn\<close> with a user content of
  three spaces, empty after trimming, returns the four identifiers and stores a user
  message whose content is the empty string.
\<close>

theorem append_turn_empty_content_counterexample:
  "strip (lit ''   '') = []
   \<and> fst (append_turn demo_env (lit ''s1'') (lit ''   '') (lit ''hi'') demo_db)
       = Inr \<lparr>r_session_id = lit ''s1'', r_conversation_id = lit ''c1'',
              r_user_message_id = lit ''u0'', r_assistant_message_id = lit ''u1''\<rparr>
   \<and> map m_content_text
        (messages (snd (append_turn demo_env (lit ''s1'') (lit ''   '') (lit ''hi'') demo_db)))
       = [Some [], Some (lit ''hi'')]"
  by (simp add: append_turn_def fetch_session_row_def demo_db_def demo_env_def Let_def
      case_prod_beta lit_def conversation_id_for_session_def conversation_from_metadata_def
      insert_message_def uuid4_def utcnow_def link_session_message_def ensure_conversation_def
      strip_def isspace_def MAX_CONTENT_LEN_def)

subsection \<open>The hydrate cap\<close>

lemma turn_capped:
  "MAX_HYDRATE_TURNS \<le> hydrated ts
   \<Longrightarrow> turn e ts a = Inr (Failure (lit ''turn hydration cap reached''), ts)"
  by (simp add: turn_def)

lemma turn_existing:
  assumes "hydrated ts < MAX_HYDRATE_TURNS" and "existing_turn e a"
  shows "\<exists>d. turn e ts a = Inr (TurnOk d, ts\<lparr>hydrated := hydrated ts + 1\<rparr>)"
  using assms
  by (auto simp: turn_def existing_turn_def Let_def split: json.splits option.splits)

lemma turn_missing:
  assumes "hydrated ts < MAX_HYDRATE_TURNS" and "missing_turn e a"
  shows "turn e ts a = Inr (Failure (lit ''turn not found''), ts)"
  using assms
  by (auto simp: turn_def missing_turn_def split: json.splits option.splits)

lemma turn_not_existing:
  assumes "\<not> existing_turn e (JObj kvs)"
  shows "\<exists>msg. turn e ts (JObj kvs) = Inr (Failure msg, ts)"
  using assms
  by (auto simp: turn_def existing_turn_def split: option.splits)

lemma turn_calls_characterised:
  assumes "\<forall>a \<in> set calls. \<exists>kvs. a = JObj kvs" and "hydrated ts \<le> MAX_HYDRATE_TURNS"
  shows "\<exists>rs ts'. turn_calls e ts calls = Inr (rs, ts')
           \<and> length rs = length calls
           \<and> hydrated ts' =
               min MAX_HYDRATE_TURNS (hydrated ts + length (filter (existing_turn e) calls))
           \<and> (\<forall>i < length calls.
                 (MAX_HYDRATE_TURNS \<le> hydrated ts + length (filter (existing_turn e) (take i calls))
                    \<longrightarrow> rs ! i = Failure (lit ''turn hydration cap reached''))
               \<and> (hydrated ts + length (filter (existing_turn e) (take i calls)) < MAX_HYDRATE_TURNS
                    \<and> existing_turn e (calls ! i) \<longrightarrow> (\<exists>d. rs ! i = TurnOk d))
               \<and> (hydrated ts + length (filter (existing_turn e) (take i calls)) < MAX_HYDRATE_TURNS
                    \<and> missing_turn e (calls ! i) \<longrightarrow> rs ! i = Failure (lit ''turn not found'')))"
  using assms
proof (induction calls arbitrary: ts)
  case Nil
  then show ?case by simp
next
  case (Cons a calls)
  then obtain kvs where a: "a = JObj kvs"
    by auto
  let ?P = "\<lambda>r ts1. turn e ts a = Inr (r, ts1)
      \<and> hydrated ts1 = (if hydrated ts < MAX_HYDRATE_TURNS \<and> existing_turn e a
                         then hydrated ts + 1 else hydrated ts)
      \<and> (MAX_HYDRATE_TURNS \<le> hydrated ts \<longrightarrow> r = Failure (lit ''turn hydration cap reached''))
      \<and> (hydrated ts < MAX_HYDRATE_TURNS \<and> existing_turn e a \<longrightarrow> (\<exists>d. r = TurnOk d))
      \<and> (hydrated ts < MAX_HYDRATE_TURNS \<and> missing_turn e a \<longrightarrow> r = Failure (lit ''turn not found''))"
  have "\<exists>r ts1. ?P r ts1"
  proof (cases "MAX_HYDRATE_TURNS \<le> hydrated ts")
    case True
    then show ?thesis using turn_capped [of ts e a] by auto
  next
    case False
    show ?thesis
    proof (cases "existing_turn e a")
      case True
      then show ?thesis
        using False turn_existing [of ts e a]
        by (auto simp: existing_turn_def missing_turn_def split: json.splits option.splits)
    next
      case ne: False
      then obtain msg where "turn e ts a = Inr (Failure msg, ts)"
        using turn_not_existing [of e kvs ts] a by auto
      then show ?thesis
        using False ne turn_missing [of ts e a] by auto
    qed
  qed
  then obtain r ts1 where step: "?P r ts1"
    by blast
  then have le: "hydrated ts1 \<le> MAX_HYDRATE_TURNS"
    using Cons.prems(2) by (auto split: if_splits)
  from Cons.IH [of ts1] Cons.prems(1) le
  obtain rs ts' where rest: "turn_calls e ts1 calls = Inr (rs, ts')"
      "length rs = length calls"
      "hydrated ts' = min MAX_HYDRATE_TURNS (hydrated ts1 + length (filter (existing_turn e) calls))"
      "\<forall>i < length calls.
         (MAX_HYDRATE_TURNS \<le> hydrated ts1 + length (filter (existing_turn e) (take i calls))
            \<longrightarrow> rs ! i = Failure (lit ''turn hydration cap reached''))
       \<and> (hydrated ts1 + length (filter (existing_turn e) (take i calls)) < MAX_HYDRATE_TURNS
            \<and> existing_turn e (calls ! i) \<longrightarrow> (\<exists>d. rs ! i = TurnOk d))
       \<and> (hydrated ts1 + length (filter (existing_turn e) (take i calls)) < MAX_HYDRATE_TURNS
            \<and> missing_turn e (calls ! i) \<longrightarrow> rs ! i = Failure (lit ''turn not found''))"
    by auto
  have run: "turn_calls e ts (a # calls) = Inr (r # rs, ts')"
    using step rest(1) by simp
  have len: "length (r # rs) = length (a # calls)"
    using rest(2) by simp
  have cnt: "hydrated ts' =
      min MAX_HYDRATE_TURNS (hydrated ts + length (filter (existing_turn e) (a # calls)))"
    using step rest(3) Cons.prems(2) by (auto split: if_splits)
  have idx: "\<forall>i < length (a # calls).
         (MAX_HYDRATE_TURNS \<le> hydrated ts + length (filter (existing_turn e) (take i (a # calls)))
            \<longrightarrow> (r # rs) ! i = Failure (lit ''turn hydration cap reached''))
       \<and> (hydrated ts + length (filter (existing_turn e) (take i (a # calls))) < MAX_HYDRATE_TURNS
            \<and> existing_turn e ((a # calls) ! i) \<longrightarrow> (\<exists>d. (r # rs) ! i = TurnOk d))
       \<and> (hydrated ts + length (filter (existing_turn e) (take i (a # calls))) < MAX_HYDRATE_TURNS
            \<and> missing_turn e ((a # calls) ! i) \<longrightarrow> (r # rs) ! i = Failure (lit ''turn not found''))"
  proof (intro allI impI)
    fix i
    assume i: "i < length (a # calls)"
    show "(MAX_HYDRATE_TURNS \<le> hydrated ts + length (filter (existing_turn e) (take i (a # calls)))
            \<longrightarrow> (r # rs) ! i = Failure (lit ''turn hydration cap reached''))
       \<and> (hydrated ts + length (filter (existing_turn e) (take i (a # calls))) < MAX_HYDRATE_TURNS
            \<and> existing_turn e ((a # calls) ! i) \<longrightarrow> (\<exists>d. (r # rs) ! i = TurnOk d))
       \<and> (hydrated ts + length (filter (existing_turn e) (take i (a # calls))) < MAX_HYDRATE_TURNS
            \<and> missing_turn e ((a # calls) ! i) \<longrightarrow> (r # rs) ! i = Failure (lit ''turn not found''))"
    proof (cases i)
      case 0
      then show ?thesis using step by simp
    next
      case (Suc j)
      then have j: "j < length calls"
        using i by simp
      have eq: "hydrated ts + length (filter (existing_turn e) (take i (a # calls)))
                  = (if existing_turn e a then Suc (hydrated ts) else hydrated ts)
                    + length (filter (existing_turn e) (take j calls))"
        using Suc by simp
      show ?thesis
      proof (cases "hydrated ts < MAX_HYDRATE_TURNS")
        case True
        then have "hydrated ts1 = (if existing_turn e a then Suc (hydrated ts) else hydrated ts)"
          using step by simp
        then show ?thesis
          using rest(4) j Suc eq by simp
      next
        case False
        then have h1: "hydrated ts1 = hydrated ts"
          using step by simp
        have "rs ! j = Failure (lit ''turn hydration cap reached'')"
          using rest(4) j h1 False by (simp add: not_less)
        then show ?thesis
          using False Suc by (simp add: not_less)
      qed
    qed
  qed
  from run len cnt idx show ?case
    by blast
qed

lemma demo_existing: "existing_turn demo_env (JObj [(lit ''turn_id'', JStr (lit ''t1''))])"
  by (simp add: existing_turn_def demo_env_def get_or_def demo_turn_def lit_def)

lemma demo_missing: "missing_turn demo_env (JObj [(lit ''turn_id'', JStr (lit ''t9''))])"
  by (simp add: missing_turn_def demo_env_def get_or_def demo_turn_def lit_def)

text \<open>
  Claim C2. Within one run, whose \<^verbatim>\<open>RetrievalTools\<close> object starts with the hydrate counter
  at zero, the hydrate calls with valid ids of existing turns succeed until twenty have
  succeeded (so of calls that all name existing turns the first twenty succeed, the
  twentieth among them), and every call made once the counter has reached 20 returns the
  capped-out error, whatever its argument; the counter is the number of successful
  hydrations, at most 20. Below the cap, a call with a valid id of no turn returns the
  not-found error and leaves the counter as it was.
\<close>

theorem hydrate_cap:
  assumes "\<forall>a \<in> set calls. \<exists>kvs. a = JObj kvs"
  shows "(\<exists>rs ts'. turn_calls e \<lparr>hydrated = 0\<rparr> calls = Inr (rs, ts')
           \<and> length rs = length calls
           \<and> hydrated ts' = min 20 (length (filter (existing_turn e) calls))
           \<and> (\<forall>i < length calls.
                 (20 \<le> length (filter (existing_turn e) (take i calls))
                    \<longrightarrow> rs ! i = Failure (lit ''turn hydration cap reached''))
               \<and> (length (filter (existing_turn e) (take i calls)) < 20
                    \<and> existing_turn e (calls ! i) \<longrightarrow> (\<exists>d. rs ! i = TurnOk d))
               \<and> (length (filter (existing_turn e) (take i calls)) < 20
                    \<and> missing_turn e (calls ! i) \<longrightarrow> rs ! i = Failure (lit ''turn not found'')))
           \<and> ((\<forall>a \<in> set calls. existing_turn e a) \<longrightarrow>
                (\<forall>i < length calls.
                   (i < 20 \<longrightarrow> (\<exists>d. rs ! i = TurnOk d))
                 \<and> (20 \<le> i \<longrightarrow> rs ! i = Failure (lit ''turn hydration cap reached'')))))
       \<and> (\<forall>ts a. 20 \<le> hydrated ts
             \<longrightarrow> turn e ts a = Inr (Failure (lit ''turn hydration cap reached''), ts))
       \<and> (\<forall>ts a. hydrated ts < 20 \<and> existing_turn e a
             \<longrightarrow> (\<exists>d. turn e ts a = Inr (TurnOk d, ts\<lparr>hydrated := hydrated ts + 1\<rparr>)))
       \<and> (\<forall>ts a. hydrated ts < 20 \<and> missing_turn e a
             \<longrightarrow> turn e ts a = Inr (Failure (lit ''turn not found''), ts))
       \<and> MAX_HYDRATE_TURNS = 20"
proof -
  have m: "MAX_HYDRATE_TURNS = 20"
    by (simp add: MAX_HYDRATE_TURNS_def)
  obtain rs ts' where r: "turn_calls e \<lparr>hydrated = 0\<rparr> calls = Inr (rs, ts')"
      "length rs = length calls"
      "hydrated ts' = min 20 (length (filter (existing_turn e) calls))"
      "\<forall>i < length calls.
                 (20 \<le> length (filter (existing_turn e) (take i calls))
                    \<longrightarrow> rs ! i = Failure (lit ''turn hydration cap reached''))
               \<and> (length (filter (existing_turn e) (take i calls)) < 20
                    \<and> existing_turn e (calls ! i) \<longrightarrow> (\<exists>d. rs ! i = TurnOk d))
               \<and> (length (filter (existing_turn e) (take i calls)) < 20
                    \<and> missing_turn e (calls ! i) \<longrightarrow> rs ! i = Failure (lit ''turn not found''))"
    using turn_calls_characterised [OF assms, of "\<lparr>hydrated = 0\<rparr>" e] by (auto simp: m)
  have all: "(\<forall>a \<in> set calls. existing_turn e a) \<longrightarrow>
                (\<forall>i < length calls.
                   (i < 20 \<longrightarrow> (\<exists>d. rs ! i = TurnOk d))
                 \<and> (20 \<le> i \<longrightarrow> rs ! i = Failure (lit ''turn hydration cap reached'')))"
  proof (intro impI allI)
    fix i
    assume ex: "\<forall>a \<in> set calls. existing_turn e a" and i: "i < length calls"
    have "filter (existing_turn e) (take i calls) = take i calls"
      using ex by (auto simp: filter_id_conv dest: in_set_takeD)
    then have "length (filter (existing_turn e) (take i calls)) = i"
      using i by simp
    moreover have "existing_turn e (calls ! i)"
      using ex i by simp
    ultimately show "(i < 20 \<longrightarrow> (\<exists>d. rs ! i = TurnOk d))
                 \<and> (20 \<le> i \<longrightarrow> rs ! i = Failure (lit ''turn hydration cap reached''))"
      using r(4) i by auto
  qed
  have cap: "\<forall>ts a. 20 \<le> hydrated ts
             \<longrightarrow> turn e ts a = Inr (Failure (lit ''turn hydration cap reached''), ts)"
    using turn_capped by (simp add: m)
  have ex1: "\<forall>ts a. hydrated ts < 20 \<and> existing_turn e a
             \<longrightarrow> (\<exists>d. turn e ts a = Inr (TurnOk d, ts\<lparr>hydrated := hydrated ts + 1\<rparr>))"
    using turn_existing by (simp add: m)
  have mis: "\<forall>ts a. hydrated ts < 20 \<and> missing_turn e a
             \<longrightarrow> turn e ts a = Inr (Failure (lit ''turn not found''), ts)"
    using turn_missing by (simp add: m)
  from r all cap ex1 mis m show ?thesis
    by blast
qed

text \<open>
  The theorem at twenty-one calls for the existing turn \<open>t1\<close>, at a call for the missing
  turn \<open>t9\<close> and at a call with the counter at 20.
\<close>

theorem hydrate_cap_witness:
  "\<exists>rs ts'. turn_calls demo_env \<lparr>hydrated = 0\<rparr>
               (replicate 21 (JObj [(lit ''turn_id'', JStr (lit ''t1''))])) = Inr (rs, ts')
      \<and> hydrated ts' = 20 \<and> (\<exists>d. rs ! 19 = TurnOk d)
      \<and> rs ! 20 = Failure (lit ''turn hydration cap reached'')
      \<and> turn demo_env \<lparr>hydrated = 3\<rparr> (JObj [(lit ''turn_id'', JStr (lit ''t9''))])
          = Inr (Failure (lit ''turn not found''), \<lparr>hydrated = 3\<rparr>)
      \<and> turn demo_env \<lparr>hydrated = 20\<rparr> (JObj [(lit ''turn_id'', JStr (lit ''t1''))])
          = Inr (Failure (lit ''turn hydration cap reached''), \<lparr>hydrated = 20\<rparr>)"
proof -
  let ?c = "JObj [(lit ''turn_id'', JStr (lit ''t1''))]"
  let ?calls = "replicate 21 ?c"
  have dict: "\<forall>a \<in> set ?calls. \<exists>kvs. a = JObj kvs"
    by simp
  have allex: "\<forall>a \<in> set ?calls. existing_turn demo_env a"
    using demo_existing by simp
  note h = hydrate_cap [OF dict, of demo_env]
  from h obtain rs ts' where r: "turn_calls demo_env \<lparr>hydrated = 0\<rparr> ?calls = Inr (rs, ts')"
    "hydrated ts' = min 20 (length (filter (existing_turn demo_env) ?calls))"
    "(\<forall>a \<in> set ?calls. existing_turn demo_env a) \<longrightarrow>
                (\<forall>i < length ?calls.
                   (i < 20 \<longrightarrow> (\<exists>d. rs ! i = TurnOk d))
                 \<and> (20 \<le> i \<longrightarrow> rs ! i = Failure (lit ''turn hydration cap reached'')))"
    by blast
  have a: "hydrated ts' = 20"
    using r(2) demo_existing by simp
  have b: "\<exists>d. rs ! 19 = TurnOk d" "rs ! 20 = Failure (lit ''turn hydration cap reached'')"
    using r(3) allex by simp_all
  have c: "turn demo_env \<lparr>hydrated = 3\<rparr> (JObj [(lit ''turn_id'', JStr (lit ''t9''))])
          = Inr (Failure (lit ''turn not found''), \<lparr>hydrated = 3\<rparr>)"
    using h demo_missing by simp
  have d: "turn demo_env \<lparr>hydrated = 20\<rparr> ?c
          = Inr (Failure (lit ''turn hydration cap reached''), \<lparr>hydrated = 20\<rparr>)"
    using h by simp
  from r(1) a b c d show ?thesis
    by blast
qed

subsection \<open>The peek loop, the search and the histogram\<close>

lemma dict_set_fst: "fst ` set (dict_set k v kvs) = insert k (fst ` set kvs)"
proof (induction kvs)
  case Nil
  then show ?case by simp
next
  case (Cons kv kvs)
  show ?case
  proof (cases "fst kv = k")
    case True
    then show ?thesis by (cases kv) auto
  next
    case False
    then have "dict_set k v (kv # kvs) = kv # dict_set k v kvs"
      by (cases kv) auto
    then show ?thesis using Cons by auto
  qed
qed

lemma dict_set_distinct: "distinct (map fst kvs) \<Longrightarrow> distinct (map fst (dict_set k v kvs))"
proof (induction kvs)
  case Nil
  then show ?case by simp
next
  case (Cons kv kvs)
  then show ?case
    using dict_set_fst [of k v kvs] by (cases kv) auto
qed

lemma dict_set_bump_sum:
  "distinct (map fst kvs) \<Longrightarrow>
   sum_list (map snd (dict_set k ((case map_of kvs k of None \<Rightarrow> 0 | Some c \<Rightarrow> c) + 1) kvs))
     = sum_list (map snd kvs) + (1::nat)"
proof (induction kvs)
  case Nil
  then show ?case by simp
next
  case (Cons kv kvs)
  then show ?case by (cases kv) (auto simp: image_iff)
qed

lemma dict_set_mem:
  "kv \<in> set (dict_set k v kvs) \<Longrightarrow> kv = (k, v) \<or> kv \<in> set kvs"
  by (induction kvs) (auto split: if_splits)

lemma take_append_step:
  "(if int (length ms) < mm then ms @ [f x] else ms)
     @ map f (take (nat (mm - int (length (if int (length ms) < mm then ms @ [f x] else ms)))) rows)
   = ms @ map f (take (nat (mm - int (length ms))) (x # rows))"
proof (cases "int (length ms) < mm")
  case True
  define n where "n = nat (mm - int (length ms) - 1)"
  have a: "nat (mm - int (length ms)) = Suc n"
    using True unfolding n_def by linarith
  have b: "nat (mm - int (length (ms @ [f x]))) = n"
    unfolding n_def by (simp add: algebra_simps)
  have "(ms @ [f x]) @ map f (take n rows) = ms @ map f (take (Suc n) (x # rows))"
    by simp
  then show ?thesis
    using True a b by presburger
next
  case False
  then show ?thesis by simp
qed

lemma bin_timestamp_aligned:
  assumes "bin_timestamp ts bin_seconds = Inr start"
  shows "bin_seconds * 1000000 dvd start \<and> bin_seconds \<noteq> 0"
  using assms
  by (auto simp: bin_timestamp_def fromtimestamp_def split: if_splits)

lemma peek_loop_result:
  assumes "peek_loop entry bin_seconds max_matches rows buckets matches = Inr (buckets', matches')"
    and "distinct (map fst buckets)"
    and "\<forall>kv \<in> set buckets. bin_seconds * 1000000 dvd fst kv \<and> 0 < snd kv"
  shows "distinct (map fst buckets')
       \<and> (\<forall>kv \<in> set buckets'. bin_seconds * 1000000 dvd fst kv \<and> 0 < snd kv)
       \<and> sum_list (map snd buckets')
            = sum_list (map snd buckets) + length (filter has_create_time rows)
       \<and> matches' = matches @ map entry (take (nat (max_matches - int (length matches))) rows)"
  using assms
proof (induction rows arbitrary: buckets matches)
  case Nil
  then show ?case by simp
next
  case (Cons row rows)
  show ?case
  proof (cases "t_user_create_time (fst row)")
    case None
    then have step: "peek_loop entry bin_seconds max_matches rows buckets
            (if int (length matches) < max_matches then matches @ [entry row] else matches)
          = Inr (buckets', matches')"
      using Cons.prems(1) by (simp add: ensure_utc_def)
    have m: "(if int (length matches) < max_matches then matches @ [entry row] else matches)
               @ map entry (take (nat (max_matches
                   - int (length (if int (length matches) < max_matches
                                  then matches @ [entry row] else matches)))) rows)
             = matches @ map entry (take (nat (max_matches - int (length matches))) (row # rows))"
      by (rule take_append_step)
    from Cons.IH [OF step Cons.prems(2,3)] m None show ?thesis
      by (simp add: has_create_time_def)
  next
    case (Some t)
    then obtain start where bt: "bin_timestamp t bin_seconds = Inr start"
      and step: "peek_loop entry bin_seconds max_matches rows
            (dict_set start ((case map_of buckets start of None \<Rightarrow> 0 | Some c \<Rightarrow> c) + 1) buckets)
            (if int (length matches) < max_matches then matches @ [entry row] else matches)
          = Inr (buckets', matches')"
      using Cons.prems(1) by (auto simp: ensure_utc_def split: sum.splits)
    let ?b = "dict_set start ((case map_of buckets start of None \<Rightarrow> 0 | Some c \<Rightarrow> c) + 1) buckets"
    have d: "distinct (map fst ?b)"
      using Cons.prems(2) by (rule dict_set_distinct)
    have al: "\<forall>kv \<in> set ?b. bin_seconds * 1000000 dvd fst kv \<and> 0 < snd kv"
      using Cons.prems(3) bin_timestamp_aligned [OF bt]
      by (auto dest!: dict_set_mem)
    have sm: "sum_list (map snd ?b) = sum_list (map snd buckets) + 1"
      using Cons.prems(2) by (rule dict_set_bump_sum)
    have m: "(if int (length matches) < max_matches then matches @ [entry row] else matches)
               @ map entry (take (nat (max_matches
                   - int (length (if int (length matches) < max_matches
                                  then matches @ [entry row] else matches)))) rows)
             = matches @ map entry (take (nat (max_matches - int (length matches))) (row # rows))"
      by (rule take_append_step)
    from Cons.IH [OF step d al] m sm Some show ?thesis
      by (simp add: has_create_time_def)
  qed
qed

lemma bucket_list_result:
  assumes "bucket_list bin_seconds items = Inr hb"
  shows "map b_start hb = map fst items \<and> map b_count hb = map snd items
       \<and> (\<forall>b \<in> set hb. b_end b = b_start b + bin_seconds * 1000000)"
  using assms
proof (induction items arbitrary: hb)
  case Nil
  then show ?case by simp
next
  case (Cons item items)
  obtain start count where item: "item = (start, count)"
    by (cases item)
  from Cons.prems item obtain end' bs where
    e: "add_seconds start bin_seconds = Inr end'" and
    r: "bucket_list bin_seconds items = Inr bs" and
    hb: "hb = \<lparr>b_start = start, b_end = end', b_count = count\<rparr> # bs"
    by (auto split: sum.splits)
  have "end' = start + bin_seconds * 1000000"
    using e by (auto simp: add_seconds_def split: if_splits)
  with Cons.IH [OF r] hb item show ?case
    by simp
qed

lemma bucket_list_total:
  assumes "\<forall>kv \<in> set items. \<exists>x. add_seconds (fst kv) bin_seconds = Inr x"
  shows "\<exists>hb. bucket_list bin_seconds items = Inr hb"
  using assms
proof (induction items)
  case Nil
  then show ?case by simp
next
  case (Cons item items)
  then show ?case by (cases item) auto
qed

lemma sum_list_insort_key:
  "sum_list (map g (insort_key f x xs)) = (g x :: nat) + sum_list (map g xs)"
  by (induction xs) (auto simp: ac_simps)

lemma sum_list_sort_key:
  "sum_list (map g (sort_key f xs)) = (sum_list (map g xs) :: nat)"
  by (induction xs) (simp_all add: sum_list_insort_key)

lemma search_result:
  assumes "search e emb s t c top_k = Inr rows"
  shows "0 \<le> top_k \<and> int (length rows) \<le> top_k \<and> sorted (map snd rows)
       \<and> fst ` set rows \<subseteq> set (corpus e)"
proof -
  let ?all = "sort_key snd (map (\<lambda>t. (t, vector_distance e emb t))
       (filter (\<lambda>ta. t_provider ta = PROVIDER \<and> t_model ta = MODEL
                        \<and> (case s of None \<Rightarrow> True
                            | Some s \<Rightarrow> (case t_user_create_time ta of None \<Rightarrow> False
                                         | Some c \<Rightarrow> s \<le> c))
                        \<and> (case t of None \<Rightarrow> True
                            | Some s \<Rightarrow> (case t_user_create_time ta of None \<Rightarrow> False
                                         | Some c \<Rightarrow> c \<le> s))
                        \<and> (case c of None \<Rightarrow> True
                            | Some c \<Rightarrow> t_conversation_id ta = c))
                      (corpus e)))"
  from assms have k: "0 \<le> top_k" and rows: "rows = take (nat top_k) ?all"
    by (auto simp: search_def split: if_splits)
  have "sorted (map snd ?all)"
    by (rule sorted_sort_key)
  then have "sorted (map snd rows)"
    unfolding rows by (simp add: take_map [symmetric] sorted_wrt_take)
  moreover have "fst ` set rows \<subseteq> set (corpus e)"
    unfolding rows by (auto dest!: in_set_takeD)
  moreover have "int (length rows) \<le> top_k"
    unfolding rows using k by simp
  ultimately show ?thesis
    using k by simp
qed

lemma search_total:
  "0 \<le> top_k \<Longrightarrow> \<exists>rows. search e emb s t c top_k = Inr rows"
  by (simp add: search_def)

lemma peek_loop_keys:
  assumes "peek_loop entry bin_seconds max_matches rows buckets matches = Inr (buckets', matches')"
    and "k \<in> fst ` set buckets'"
  shows "k \<in> fst ` set buckets
       \<or> (\<exists>row \<in> set rows. \<exists>t. t_user_create_time (fst row) = Some t
             \<and> bin_timestamp t bin_seconds = Inr k)"
  using assms
proof (induction rows arbitrary: buckets matches)
  case Nil
  then show ?case by simp
next
  case (Cons row rows)
  show ?case
  proof (cases "t_user_create_time (fst row)")
    case None
    then have "peek_loop entry bin_seconds max_matches rows buckets
            (if int (length matches) < max_matches then matches @ [entry row] else matches)
          = Inr (buckets', matches')"
      using Cons.prems(1) by (simp add: ensure_utc_def)
    from Cons.IH [OF this Cons.prems(2)] show ?thesis
      by auto
  next
    case (Some t)
    then obtain start where bt: "bin_timestamp t bin_seconds = Inr start"
      and step: "peek_loop entry bin_seconds max_matches rows
            (dict_set start ((case map_of buckets start of None \<Rightarrow> 0 | Some c \<Rightarrow> c) + 1) buckets)
            (if int (length matches) < max_matches then matches @ [entry row] else matches)
          = Inr (buckets', matches')"
      using Cons.prems(1) by (auto simp: ensure_utc_def split: sum.splits)
    from Cons.IH [OF step Cons.prems(2)] show ?thesis
      using bt Some by (auto simp: dict_set_fst)
  qed
qed

lemma peek_loop_total:
  assumes "\<forall>row \<in> set rows. \<forall>t. t_user_create_time (fst row) = Some t
             \<longrightarrow> (\<exists>start. bin_timestamp t bin_seconds = Inr start)"
  shows "\<exists>res. peek_loop entry bin_seconds max_matches rows buckets matches = Inr res"
  using assms
proof (induction rows arbitrary: buckets matches)
  case Nil
  then show ?case by simp
next
  case (Cons row rows)
  show ?case
  proof (cases "t_user_create_time (fst row)")
    case None
    then show ?thesis using Cons by (simp add: ensure_utc_def)
  next
    case (Some t)
    then obtain start where "bin_timestamp t bin_seconds = Inr start"
      using Cons.prems by auto
    then show ?thesis using Cons Some by (simp add: ensure_utc_def)
  qed
qed

lemma bin_timestamp_total:
  assumes "0 < bin_seconds" and "0 \<le> t" and "t \<le> DT_MAX"
  shows "\<exists>start. bin_timestamp t bin_seconds = Inr start \<and> 0 \<le> start \<and> start \<le> t"
proof -
  let ?s = "t div 1000000"
  let ?b = "?s div bin_seconds * bin_seconds"
  have s0: "0 \<le> ?s"
    using assms(2) by simp
  have b0: "0 \<le> ?b"
    using s0 assms(1) by (simp add: pos_imp_zdiv_nonneg_iff)
  have bs: "?b \<le> ?s"
    using assms(1) by (metis mult.commute div_mult_self_is_m less_eq_int_code(1) 
        minus_mod_eq_div_mult mod_int_pos_iff diff_le_self add_le_same_cancel1 
        add.commute mult_div_mod_eq le_add_same_cancel1 Euclidean_Rings.pos_mod_sign)
  have st: "?s * 1000000 \<le> t"
    by (metis mult.commute mult_div_mod_eq le_add_same_cancel1 Euclidean_Rings.pos_mod_sign
        zero_less_numeral)
  have le: "?b * 1000000 \<le> t"
    using bs st by linarith
  have "DT_MIN \<le> ?b * 1000000"
    using b0 unfolding DT_MIN_def by linarith
  moreover have "?b * 1000000 \<le> DT_MAX"
    using le assms(3) by linarith
  ultimately have "bin_timestamp t bin_seconds = Inr (?b * 1000000)"
    using assms(1,2) by (simp add: bin_timestamp_def fromtimestamp_def timestamp_seconds_def)
  then show ?thesis
    using b0 le by simp
qed

lemma peek_probe_unfold:
  assumes "peek_probe e p = Inr r"
  shows "\<exists>emb rows buckets previews hb.
           embed e (q_query p) = Inr emb
         \<and> search e emb (q_start_time p) (q_end_time p) (q_conversation p) (q_top_k p) = Inr rows
         \<and> peek_loop preview_of (q_bin_days p * 86400)
              (min (q_top_n_snippets p) (int (length rows))) rows [] [] = Inr (buckets, previews)
         \<and> histogram_buckets (q_bin_days p * 86400) buckets = Inr hb
         \<and> r = PeekOk
                 \<lparr>pd_query = q_query p, pd_top_k = q_top_k p, pd_bin_days = q_bin_days p,
                  pd_top_n_snippets = q_top_n_snippets p,
                  pd_histogram =
                    \<lparr>h_bin_days = q_bin_days p, h_buckets = hb, h_total = length rows\<rparr>,
                  pd_previews = previews, pd_total_candidates = length rows,
                  pd_preview_count = length previews,
                  pd_notice = lit ''Preview-only; hydrate with turn for evidence.''\<rparr>"
  using assms
  by (auto simp: peek_probe_def Let_def split: sum.splits prod.splits)

lemma peek_unfold:
  assumes "peek e arguments = Inr (PeekOk d)"
  shows "\<exists>kvs p. arguments = JObj kvs \<and> peek_arguments e kvs = Inr p
           \<and> peek_probe e p = Inr (PeekOk d)"
  using assms
  by (auto simp: peek_def split: json.splits sum.splits)

lemma histogram_buckets_result:
  assumes "histogram_buckets bin_seconds buckets = Inr hb"
  shows "sum_list (map b_count hb) = sum_list (map snd buckets)
       \<and> map b_start hb = map fst (sort_key fst buckets)
       \<and> sorted (map b_start hb)
       \<and> map b_count hb = map snd (sort_key fst buckets)
       \<and> (\<forall>b \<in> set hb. b_end b = b_start b + bin_seconds * 1000000)"
proof -
  from assms have bl: "bucket_list bin_seconds (sort_key fst buckets) = Inr hb"
    by (simp add: histogram_buckets_def)
  note r = bucket_list_result [OF bl]
  have "sum_list (map b_count hb) = sum_list (map snd (sort_key fst buckets))"
    using r by simp
  then have "sum_list (map b_count hb) = sum_list (map snd buckets)"
    by (simp add: sum_list_sort_key)
  moreover have "sorted (map b_start hb)"
    using r by (simp add: sorted_sort_key)
  ultimately show ?thesis
    using r by simp
qed

lemma peek_probe_histogram:
  assumes "peek_probe e p = Inr (PeekOk d)"
  shows "\<exists>emb rows.
           embed e (q_query p) = Inr emb
         \<and> search e emb (q_start_time p) (q_end_time p) (q_conversation p) (q_top_k p) = Inr rows
         \<and> h_total (pd_histogram d) = length rows
         \<and> pd_total_candidates d = length rows
         \<and> int (length rows) \<le> q_top_k p
         \<and> h_bin_days (pd_histogram d) = q_bin_days p
         \<and> sum_list (map b_count (h_buckets (pd_histogram d)))
             = length (filter has_create_time rows)
         \<and> (\<forall>b \<in> set (h_buckets (pd_histogram d)).
               b_end b = b_start b + q_bin_days p * 86400 * 1000000
             \<and> q_bin_days p * 86400 * 1000000 dvd b_start b
             \<and> 0 < b_count b)
         \<and> sorted (map b_start (h_buckets (pd_histogram d)))
         \<and> distinct (map b_start (h_buckets (pd_histogram d)))"
proof -
  from peek_probe_unfold [OF assms] obtain emb rows buckets previews hb where
    em: "embed e (q_query p) = Inr emb" and
    se: "search e emb (q_start_time p) (q_end_time p) (q_conversation p) (q_top_k p) = Inr rows" and
    lp: "peek_loop preview_of (q_bin_days p * 86400)
              (min (q_top_n_snippets p) (int (length rows))) rows [] [] = Inr (buckets, previews)" and
    hb: "histogram_buckets (q_bin_days p * 86400) buckets = Inr hb" and
    d: "pd_histogram d = \<lparr>h_bin_days = q_bin_days p, h_buckets = hb, h_total = length rows\<rparr>"
       "pd_total_candidates d = length rows"
    by auto
  have l: "distinct (map fst buckets)"
      "\<forall>kv \<in> set buckets. q_bin_days p * 86400 * 1000000 dvd fst kv \<and> 0 < snd kv"
      "sum_list (map snd buckets) = length (filter has_create_time rows)"
    using peek_loop_result [OF lp] by simp_all
  note h = histogram_buckets_result [OF hb]
  have "sum_list (map b_count hb) = sum_list (map snd buckets)"
    using h by blast
  then have sum: "sum_list (map b_count hb) = length (filter has_create_time rows)"
    using l(3) by simp
  have "map b_start hb = map fst (sort_key fst buckets)"
    using h by blast
  then have dist: "distinct (map b_start hb)"
    using l(1) by (simp add: distinct_map)
  have each: "\<forall>b \<in> set hb. b_end b = b_start b + q_bin_days p * 86400 * 1000000
             \<and> q_bin_days p * 86400 * 1000000 dvd b_start b \<and> 0 < b_count b"
  proof
    fix b
    assume b: "b \<in> set hb"
    then obtain i where i: "i < length hb" "hb ! i = b"
      by (auto simp: in_set_conv_nth)
    have len: "length (sort_key fst buckets) = length hb"
      using h by (metis length_map)
    have "b_start b = fst (sort_key fst buckets ! i)" "b_count b = snd (sort_key fst buckets ! i)"
      using h i len by (metis nth_map)+
    moreover have "sort_key fst buckets ! i \<in> set buckets"
      using i len by (metis nth_mem set_sort)
    ultimately show "b_end b = b_start b + q_bin_days p * 86400 * 1000000
             \<and> q_bin_days p * 86400 * 1000000 dvd b_start b \<and> 0 < b_count b"
      using h b l(2) by auto
  qed
  from em se d sum dist each h search_result [OF se] show ?thesis
    by auto
qed

lemma peek_probe_previews:
  assumes "peek_probe e p = Inr (PeekOk d)"
  shows "\<exists>emb rows.
           embed e (q_query p) = Inr emb
         \<and> search e emb (q_start_time p) (q_end_time p) (q_conversation p) (q_top_k p) = Inr rows
         \<and> sorted (map snd rows)
         \<and> pd_total_candidates d = length rows
         \<and> pd_previews d = map preview_of (take (nat (q_top_n_snippets p)) rows)
         \<and> pd_preview_count d = length (pd_previews d)
         \<and> (0 \<le> q_top_n_snippets p \<longrightarrow>
              int (length (pd_previews d)) = min (q_top_n_snippets p) (int (length rows)))"
proof -
  from peek_probe_unfold [OF assms] obtain emb rows buckets previews hb where
    em: "embed e (q_query p) = Inr emb" and
    se: "search e emb (q_start_time p) (q_end_time p) (q_conversation p) (q_top_k p) = Inr rows" and
    lp: "peek_loop preview_of (q_bin_days p * 86400)
              (min (q_top_n_snippets p) (int (length rows))) rows [] [] = Inr (buckets, previews)" and
    d: "pd_previews d = previews" "pd_total_candidates d = length rows"
       "pd_preview_count d = length previews"
    by auto
  have "previews = map preview_of (take (nat (min (q_top_n_snippets p) (int (length rows)))) rows)"
    using peek_loop_result [OF lp] by simp
  moreover have "take (nat (min (q_top_n_snippets p) (int (length rows)))) rows
                   = take (nat (q_top_n_snippets p)) rows"
    by (cases "q_top_n_snippets p \<le> int (length rows)") (simp_all add: min_def)
  ultimately have pv: "previews = map preview_of (take (nat (q_top_n_snippets p)) rows)"
    by simp
  then have "0 \<le> q_top_n_snippets p \<longrightarrow>
      int (length previews) = min (q_top_n_snippets p) (int (length rows))"
    by (auto simp: min_def)
  with em se d pv search_result [OF se] show ?thesis
    by auto
qed

lemma peek_probe_returns:
  assumes em: "embed e (q_query p) = Inr emb" and k: "0 \<le> q_top_k p" and b: "0 < q_bin_days p"
    and range: "\<forall>t \<in> set (corpus e). \<forall>c. t_user_create_time t = Some c
                  \<longrightarrow> 0 \<le> c \<and> c + q_bin_days p * 86400 * 1000000 \<le> DT_MAX"
  shows "\<exists>d. peek_probe e p = Inr (PeekOk d)"
proof -
  let ?bs = "q_bin_days p * 86400"
  have bs: "0 < ?bs"
    using b by simp
  obtain rows where se:
    "search e emb (q_start_time p) (q_end_time p) (q_conversation p) (q_top_k p) = Inr rows"
    using search_total [OF k] by blast
  have sub: "fst ` set rows \<subseteq> set (corpus e)"
    using search_result [OF se] by simp
  have rr: "\<forall>row \<in> set rows. \<forall>c. t_user_create_time (fst row) = Some c
                  \<longrightarrow> 0 \<le> c \<and> c + ?bs * 1000000 \<le> DT_MAX"
    using range sub by auto
  have bt: "\<forall>row \<in> set rows. \<forall>t. t_user_create_time (fst row) = Some t
             \<longrightarrow> (\<exists>start. bin_timestamp t ?bs = Inr start)"
  proof (intro ballI allI impI)
    fix row t
    assume "row \<in> set rows" "t_user_create_time (fst row) = Some t"
    then have "0 \<le> t" "t + ?bs * 1000000 \<le> DT_MAX"
      using rr by auto
    moreover from this bs have "t \<le> DT_MAX"
      by linarith
    ultimately show "\<exists>start. bin_timestamp t ?bs = Inr start"
      using bin_timestamp_total [OF bs, of t] by blast
  qed
  obtain buckets previews where lp:
    "peek_loop preview_of ?bs (min (q_top_n_snippets p) (int (length rows))) rows [] []
       = Inr (buckets, previews)"
    using peek_loop_total [OF bt, of preview_of _ "[]" "[]"] by (metis surj_pair)
  have keys: "\<forall>kv \<in> set buckets. \<exists>x. add_seconds (fst kv) ?bs = Inr x"
  proof
    fix kv
    assume "kv \<in> set buckets"
    then have "fst kv \<in> fst ` set buckets"
      by simp
    from peek_loop_keys [OF lp this] obtain row t where
      row: "row \<in> set rows" "t_user_create_time (fst row) = Some t"
        "bin_timestamp t ?bs = Inr (fst kv)"
      by auto
    have t: "0 \<le> t" "t + ?bs * 1000000 \<le> DT_MAX"
      using rr row by auto
    then have "t \<le> DT_MAX"
      using bs by linarith
    from bin_timestamp_total [OF bs t(1) this] row(3)
    have s: "0 \<le> fst kv" "fst kv \<le> t"
      by auto
    have "?bs * 1000000 \<le> DT_MAX"
      using t by linarith
    then have "q_bin_days p \<le> 999999999"
      unfolding DT_MAX_def by linarith
    then have d: "\<not> \<bar>?bs div 86400\<bar> > 999999999"
      using b by simp
    have "DT_MIN \<le> fst kv + ?bs * 1000000"
      using s bs unfolding DT_MIN_def by linarith
    moreover have "fst kv + ?bs * 1000000 \<le> DT_MAX"
      using s t by linarith
    ultimately show "\<exists>x. add_seconds (fst kv) ?bs = Inr x"
      using d by (simp add: add_seconds_def)
  qed
  have "\<forall>kv \<in> set (sort_key fst buckets). \<exists>x. add_seconds (fst kv) ?bs = Inr x"
    using keys by simp
  from bucket_list_total [OF this] obtain hb where
    "histogram_buckets ?bs buckets = Inr hb"
    by (auto simp: histogram_buckets_def)
  with em se lp show ?thesis
    by (simp add: peek_probe_def Let_def)
qed

lemma demo_peek_eval:
  "\<exists>d. peek demo_env (JObj [(lit ''query'', JStr (lit ''x''))]) = Inr (PeekOk d)
      \<and> h_total (pd_histogram d) = 4 \<and> pd_total_candidates d = 4
      \<and> map b_count (h_buckets (pd_histogram d)) = [2, 1]
      \<and> map pv_turn_id (pd_previews d) = [lit ''t1'', lit ''t2'', lit ''t3'', lit ''t4'']"
  by (simp add: peek_def peek_arguments_def peek_probe_def demo_env_def get_or_def lit_def
      Let_def strip_def isspace_def DEFAULT_TOP_K_def DEFAULT_BIN_DAYS_def DEFAULT_TOP_N_SNIPPETS_def
      parse_iso_datetime_def search_def demo_turn_def PROVIDER_def MODEL_def ensure_utc_def
      bin_timestamp_def timestamp_seconds_def fromtimestamp_def DT_MIN_def DT_MAX_def
      histogram_buckets_def add_seconds_def preview_of_def)

lemma api_peek_matches:
  assumes "api_peek e query top_k top_n bin_days s t c = Inr r"
  shows "\<exists>emb rows.
           embed e query = Inr emb
         \<and> search e emb (ensure_utc s) (ensure_utc t) c top_k = Inr rows
         \<and> sorted (map snd rows)
         \<and> h_total (pr_histogram r) = length rows
         \<and> pr_matches r = map match_of (take (nat top_n) rows)
         \<and> int (length (pr_matches r)) = min top_n (int (length rows))
         \<and> sorted (map mt_distance (pr_matches r))"
proof -
  from assms have n: "0 < top_n"
    by (auto simp: api_peek_def split: if_splits)
  from assms obtain emb rows buckets ms hb where
    em: "embed e query = Inr emb" and
    se: "search e emb (ensure_utc s) (ensure_utc t) c top_k = Inr rows" and
    lp: "peek_loop match_of (bin_days * 86400) (min top_n (int (length rows))) rows [] []
           = Inr (buckets, ms)" and
    r: "r = \<lparr>pr_histogram = \<lparr>h_bin_days = bin_days, h_buckets = hb, h_total = length rows\<rparr>,
             pr_matches = ms\<rparr>"
    by (auto simp: api_peek_def Let_def split: if_splits sum.splits prod.splits)
  have "ms = map match_of (take (nat (min top_n (int (length rows)))) rows)"
    using peek_loop_result [OF lp] by simp
  moreover have "take (nat (min top_n (int (length rows)))) rows = take (nat top_n) rows"
    by (cases "top_n \<le> int (length rows)") (simp_all add: min_def)
  ultimately have ms: "ms = map match_of (take (nat top_n) rows)"
    by simp
  then have len: "int (length ms) = min top_n (int (length rows))"
    using n by (auto simp: min_def)
  have srt: "sorted (map snd rows)"
    using search_result [OF se] by simp
  have "map mt_distance ms = take (nat top_n) (map snd rows)"
    unfolding ms by (simp add: take_map match_of_def Let_def comp_def)
  then have "sorted (map mt_distance ms)"
    using srt by (simp add: sorted_wrt_take)
  with em se srt r ms len show ?thesis
    by auto
qed

subsection \<open>Histogram of a peek\<close>

text \<open>
  Claim C4, as amended. For every peek call that returns data, the \<open>count\<close> fields of the
  histogram buckets sum to the number of candidate rows of the nearest-neighbour search
  that have a create time; a candidate whose create time is \<open>NULL\<close> is counted in the
  histogram's \<open>total\<close> and in no bucket, so the sum is the number of candidates when all
  of them have a create time. The \<open>total\<close> is the number of candidates returned, at most
  \<open>top_k\<close>, and the buckets are counted over all candidates, whatever the preview
  cutoff. Every bucket has \<open>end = start + bin_days\<close> days exactly (in microseconds), a
  start that is a multiple of \<open>bin_days * 86400\<close> seconds since the epoch, and a positive
  count; the buckets are in ascending order of distinct starts. A peek with a query the
  gateway embeds, \<open>top_k \<ge> 0\<close>, \<open>bin_days > 0\<close> and create times from the epoch on for
  which the end of the bucket is a \<^verbatim>\<open>datetime\<close>, returns data.
\<close>

theorem peek_histogram_counts:
  "(\<forall>d. peek e arguments = Inr (PeekOk d) \<longrightarrow>
      (\<exists>kvs p emb rows.
           arguments = JObj kvs \<and> peek_arguments e kvs = Inr p
         \<and> embed e (q_query p) = Inr emb
         \<and> search e emb (q_start_time p) (q_end_time p) (q_conversation p) (q_top_k p) = Inr rows
         \<and> h_total (pd_histogram d) = length rows
         \<and> pd_total_candidates d = length rows
         \<and> int (length rows) \<le> q_top_k p
         \<and> h_bin_days (pd_histogram d) = q_bin_days p
         \<and> sum_list (map b_count (h_buckets (pd_histogram d)))
             = length (filter has_create_time rows)
         \<and> ((\<forall>row \<in> set rows. has_create_time row) \<longrightarrow>
               sum_list (map b_count (h_buckets (pd_histogram d))) = length rows)
         \<and> (\<forall>b \<in> set (h_buckets (pd_histogram d)).
               b_end b = b_start b + q_bin_days p * 86400 * 1000000
             \<and> q_bin_days p * 86400 * 1000000 dvd b_start b
             \<and> 0 < b_count b)
         \<and> sorted (map b_start (h_buckets (pd_histogram d)))
         \<and> distinct (map b_start (h_buckets (pd_histogram d)))))
   \<and> (\<forall>kvs p emb.
         arguments = JObj kvs \<and> peek_arguments e kvs = Inr p
       \<and> embed e (q_query p) = Inr emb \<and> 0 \<le> q_top_k p \<and> 0 < q_bin_days p
       \<and> (\<forall>t \<in> set (corpus e). \<forall>c. t_user_create_time t = Some c
             \<longrightarrow> 0 \<le> c \<and> c + q_bin_days p * 86400 * 1000000 \<le> DT_MAX)
       \<longrightarrow> (\<exists>d. peek e arguments = Inr (PeekOk d)))"
proof (intro conjI allI impI)
  fix d
  assume a: "peek e arguments = Inr (PeekOk d)"
  from peek_unfold [OF a] obtain kvs p where
    kp: "arguments = JObj kvs" "peek_arguments e kvs = Inr p" "peek_probe e p = Inr (PeekOk d)"
    by blast
  from peek_probe_histogram [OF kp(3)] obtain emb rows where
    h: "embed e (q_query p) = Inr emb"
       "search e emb (q_start_time p) (q_end_time p) (q_conversation p) (q_top_k p) = Inr rows"
       "h_total (pd_histogram d) = length rows"
       "pd_total_candidates d = length rows"
       "int (length rows) \<le> q_top_k p"
       "h_bin_days (pd_histogram d) = q_bin_days p"
       "sum_list (map b_count (h_buckets (pd_histogram d))) = length (filter has_create_time rows)"
       "\<forall>b \<in> set (h_buckets (pd_histogram d)).
               b_end b = b_start b + q_bin_days p * 86400 * 1000000
             \<and> q_bin_days p * 86400 * 1000000 dvd b_start b
             \<and> 0 < b_count b"
       "sorted (map b_start (h_buckets (pd_histogram d)))"
       "distinct (map b_start (h_buckets (pd_histogram d)))"
    by blast
  have all: "(\<forall>row \<in> set rows. has_create_time row) \<longrightarrow>
               sum_list (map b_count (h_buckets (pd_histogram d))) = length rows"
    using h(7) by (simp add: filter_id_conv [THEN iffD2])
  from kp(1,2) h all
  show "\<exists>kvs p emb rows.
           arguments = JObj kvs \<and> peek_arguments e kvs = Inr p
         \<and> embed e (q_query p) = Inr emb
         \<and> search e emb (q_start_time p) (q_end_time p) (q_conversation p) (q_top_k p) = Inr rows
         \<and> h_total (pd_histogram d) = length rows
         \<and> pd_total_candidates d = length rows
         \<and> int (length rows) \<le> q_top_k p
         \<and> h_bin_days (pd_histogram d) = q_bin_days p
         \<and> sum_list (map b_count (h_buckets (pd_histogram d)))
             = length (filter has_create_time rows)
         \<and> ((\<forall>row \<in> set rows. has_create_time row) \<longrightarrow>
               sum_list (map b_count (h_buckets (pd_histogram d))) = length rows)
         \<and> (\<forall>b \<in> set (h_buckets (pd_histogram d)).
               b_end b = b_start b + q_bin_days p * 86400 * 1000000
             \<and> q_bin_days p * 86400 * 1000000 dvd b_start b
             \<and> 0 < b_count b)
         \<and> sorted (map b_start (h_buckets (pd_histogram d)))
         \<and> distinct (map b_start (h_buckets (pd_histogram d)))"
    by blast
next
  fix kvs p emb
  assume a: "arguments = JObj kvs \<and> peek_arguments e kvs = Inr p
       \<and> embed e (q_query p) = Inr emb \<and> 0 \<le> q_top_k p \<and> 0 < q_bin_days p
       \<and> (\<forall>t \<in> set (corpus e). \<forall>c. t_user_create_time t = Some c
             \<longrightarrow> 0 \<le> c \<and> c + q_bin_days p * 86400 * 1000000 \<le> DT_MAX)"
  then obtain d where "peek_probe e p = Inr (PeekOk d)"
    using peek_probe_returns [of e p emb] by blast
  with a show "\<exists>d. peek e arguments = Inr (PeekOk d)"
    by (auto simp: peek_def)
qed

text \<open>
  The theorem at the peek for \<open>"x"\<close> over the four turns of the small corpus, one of them
  without a create time.
\<close>

theorem peek_histogram_counts_witness:
  "\<exists>d rows. peek demo_env (JObj [(lit ''query'', JStr (lit ''x''))]) = Inr (PeekOk d)
     \<and> h_total (pd_histogram d) = length rows \<and> length rows = 4
     \<and> length (filter has_create_time rows) = 3
     \<and> map b_count (h_buckets (pd_histogram d)) = [2, 1]"
proof -
  from demo_peek_eval obtain d where
    d: "peek demo_env (JObj [(lit ''query'', JStr (lit ''x''))]) = Inr (PeekOk d)"
       "h_total (pd_histogram d) = 4"
       "map b_count (h_buckets (pd_histogram d)) = [2, 1]"
    by auto
  from peek_histogram_counts [of demo_env "JObj [(lit ''query'', JStr (lit ''x''))]"] d(1)
  obtain rows where
    "h_total (pd_histogram d) = length rows"
    "sum_list (map b_count (h_buckets (pd_histogram d))) = length (filter has_create_time rows)"
    by blast
  with d show ?thesis
    by (intro exI [of _ d] exI [of _ rows]) simp
qed

text \<open>
  Claim C4 as stated fails: the peek for \<open>"x"\<close> over the small corpus returns four
  candidates, reported as the total, and the bucket counts sum to three, since the turn
  \<open>t2\<close> has no create time.
\<close>

theorem peek_histogram_counts_counterexample:
  "\<exists>d. peek demo_env (JObj [(lit ''query'', JStr (lit ''x''))]) = Inr (PeekOk d)
     \<and> h_total (pd_histogram d) = 4 \<and> pd_total_candidates d = 4
     \<and> sum_list (map b_count (h_buckets (pd_histogram d))) = 3"
proof -
  from demo_peek_eval obtain d where
    "peek demo_env (JObj [(lit ''query'', JStr (lit ''x''))]) = Inr (PeekOk d)"
    "h_total (pd_histogram d) = 4" "pd_total_candidates d = 4"
    "map b_count (h_buckets (pd_histogram d)) = [2, 1]"
    by auto
  then show ?thesis
    by (intro exI [of _ d]) simp
qed

subsection \<open>Previews of a peek\<close>

text \<open>
  Claim C5. For every peek call that returns data over \<open>candidate_count\<close> rows, the
  preview list consists of the first \<open>top_n_snippets\<close> candidates of the search result,
  in the order in which the search returned them, which is ascending in distance; its
  length is \<open>min(top_n_snippets, candidate_count)\<close> for a valid \<open>top_n_snippets\<close> (one that
  is not negative). The same holds of the matches of the route \<^verbatim>\<open>GET /retrieval/peek\<close>,
  whose distances are ascending. A peek with a query the gateway embeds, \<open>top_k \<ge> 0\<close>,
  \<open>bin_days > 0\<close> and create times from the epoch on for which the end of the bucket is
  a \<^verbatim>\<open>datetime\<close>, returns data.
\<close>

theorem peek_previews_in_search_order:
  "(\<forall>d. peek e arguments = Inr (PeekOk d) \<longrightarrow>
      (\<exists>kvs p emb rows.
           arguments = JObj kvs \<and> peek_arguments e kvs = Inr p
         \<and> embed e (q_query p) = Inr emb
         \<and> search e emb (q_start_time p) (q_end_time p) (q_conversation p) (q_top_k p) = Inr rows
         \<and> sorted (map snd rows)
         \<and> pd_total_candidates d = length rows
         \<and> pd_previews d = map preview_of (take (nat (q_top_n_snippets p)) rows)
         \<and> pd_preview_count d = length (pd_previews d)
         \<and> (0 \<le> q_top_n_snippets p \<longrightarrow>
              int (length (pd_previews d)) = min (q_top_n_snippets p) (int (length rows)))))
   \<and> (\<forall>r. api_peek e query top_k top_n bin_days s t c = Inr r \<longrightarrow>
      (\<exists>emb rows.
           embed e query = Inr emb
         \<and> search e emb (ensure_utc s) (ensure_utc t) c top_k = Inr rows
         \<and> sorted (map snd rows)
         \<and> h_total (pr_histogram r) = length rows
         \<and> pr_matches r = map match_of (take (nat top_n) rows)
         \<and> int (length (pr_matches r)) = min top_n (int (length rows))
         \<and> sorted (map mt_distance (pr_matches r))))
   \<and> (\<forall>kvs p emb.
         arguments = JObj kvs \<and> peek_arguments e kvs = Inr p
       \<and> embed e (q_query p) = Inr emb \<and> 0 \<le> q_top_k p \<and> 0 < q_bin_days p
       \<and> (\<forall>t \<in> set (corpus e). \<forall>c. t_user_create_time t = Some c
             \<longrightarrow> 0 \<le> c \<and> c + q_bin_days p * 86400 * 1000000 \<le> DT_MAX)
       \<longrightarrow> (\<exists>d. peek e arguments = Inr (PeekOk d)))"
proof (intro conjI allI impI)
  fix d
  assume a: "peek e arguments = Inr (PeekOk d)"
  from peek_unfold [OF a] obtain kvs p where
    kp: "arguments = JObj kvs" "peek_arguments e kvs = Inr p" "peek_probe e p = Inr (PeekOk d)"
    by blast
  from peek_probe_previews [OF kp(3)] kp(1,2)
  show "\<exists>kvs p emb rows.
           arguments = JObj kvs \<and> peek_arguments e kvs = Inr p
         \<and> embed e (q_query p) = Inr emb
         \<and> search e emb (q_start_time p) (q_end_time p) (q_conversation p) (q_top_k p) = Inr rows
         \<and> sorted (map snd rows)
         \<and> pd_total_candidates d = length rows
         \<and> pd_previews d = map preview_of (take (nat (q_top_n_snippets p)) rows)
         \<and> pd_preview_count d = length (pd_previews d)
         \<and> (0 \<le> q_top_n_snippets p \<longrightarrow>
              int (length (pd_previews d)) = min (q_top_n_snippets p) (int (length rows)))"
    by blast
next
  fix r
  assume "api_peek e query top_k top_n bin_days s t c = Inr r"
  from api_peek_matches [OF this]
  show "\<exists>emb rows.
           embed e query = Inr emb
         \<and> search e emb (ensure_utc s) (ensure_utc t) c top_k = Inr rows
         \<and> sorted (map snd rows)
         \<and> h_total (pr_histogram r) = length rows
         \<and> pr_matches r = map match_of (take (nat top_n) rows)
         \<and> int (length (pr_matches r)) = min top_n (int (length rows))
         \<and> sorted (map mt_distance (pr_matches r))" .
next
  fix kvs p emb
  assume a: "arguments = JObj kvs \<and> peek_arguments e kvs = Inr p
       \<and> embed e (q_query p) = Inr emb \<and> 0 \<le> q_top_k p \<and> 0 < q_bin_days p
       \<and> (\<forall>t \<in> set (corpus e). \<forall>c. t_user_create_time t = Some c
             \<longrightarrow> 0 \<le> c \<and> c + q_bin_days p * 86400 * 1000000 \<le> DT_MAX)"
  then obtain d where "peek_probe e p = Inr (PeekOk d)"
    using peek_probe_returns [of e p emb] by blast
  with a show "\<exists>d. peek e arguments = Inr (PeekOk d)"
    by (auto simp: peek_def)
qed

text \<open>The theorem at the peek for \<open>"x"\<close> over the small corpus: four previews, in search order.\<close>

theorem peek_previews_in_search_order_witness:
  "\<exists>d (rows :: (turn_rec \<times> real) list).
       peek demo_env (JObj [(lit ''query'', JStr (lit ''x''))]) = Inr (PeekOk d)
     \<and> sorted (map snd rows) \<and> pd_total_candidates d = length rows \<and> length rows = 4
     \<and> pd_preview_count d = length (pd_previews d)
     \<and> map pv_turn_id (pd_previews d) = [lit ''t1'', lit ''t2'', lit ''t3'', lit ''t4'']"
proof -
  from demo_peek_eval obtain d where
    d: "peek demo_env (JObj [(lit ''query'', JStr (lit ''x''))]) = Inr (PeekOk d)"
       "pd_total_candidates d = 4"
       "map pv_turn_id (pd_previews d) = [lit ''t1'', lit ''t2'', lit ''t3'', lit ''t4'']"
    by auto
  note t = peek_previews_in_search_order
             [of demo_env "JObj [(lit ''query'', JStr (lit ''x''))]" "[]" 1 1 1 None None None,
              THEN conjunct1, rule_format, OF d(1)]
  from t obtain rows :: "(turn_rec \<times> real) list" where
    "sorted (map snd rows)" "pd_total_candidates d = length rows"
    "pd_preview_count d = length (pd_previews d)"
    by blast
  with d show ?thesis
    by (intro exI [of _ d] exI [of _ rows]) simp
qed

subsection \<open>The orchestration loop\<close>

text \<open>
  A hydrate call with a dictionary of arguments always answers, and never with the data
  of a peek; a tool call whose arguments decode to a dictionary returns unless it is a
  peek that raises.
\<close>

lemma turn_dict_returns: "\<exists>r ts'. turn e ts (JObj kvs) = Inr (r, ts')"
  by (simp add: turn_def Let_def split: option.splits)

lemma turn_not_peek_data: "turn e ts a = Inr (r, ts') \<Longrightarrow> r \<noteq> PeekOk d"
  by (auto simp: turn_def Let_def split: if_splits json.splits option.splits)

lemma run_call_returns:
  assumes "call_returns e call"
  shows "\<exists>st'. run_call e st call = Inr st'"
proof -
  let ?raw = "case tc_arguments call of None \<Rightarrow> lit ''{}'' | Some a \<Rightarrow> if a = [] then lit ''{}'' else a"
  from assms obtain kvs where j: "json_loads e ?raw = Some (JObj kvs)"
    by (auto simp: call_returns_def split: option.splits json.splits)
  have "\<exists>r ts'. dispatch e (ls_tools st) (tc_name call) (JObj kvs) = Inr (r, ts')"
  proof (cases "tc_name call = Some (lit ''retrieval_peek'')")
    case True
    then obtain r where "peek e (JObj kvs) = Inr r"
      using assms j by (auto simp: call_returns_def split: sum.splits)
    then show ?thesis using True by (simp add: dispatch_def)
  next
    case False
    then show ?thesis
      using turn_dict_returns [of e "ls_tools st" kvs] by (auto simp: dispatch_def)
  qed
  then obtain r ts' where "dispatch e (ls_tools st) (tc_name call) (JObj kvs) = Inr (r, ts')"
    by blast
  with j show ?thesis
    by (simp add: run_call_def Let_def)
qed

lemma run_calls_returns:
  assumes "\<forall>call \<in> set calls. call_returns e call"
  shows "\<exists>st'. run_calls e st calls = Inr st'"
  using assms
proof (induction calls arbitrary: st)
  case Nil
  then show ?case by simp
next
  case (Cons call calls)
  then obtain st1 where "run_call e st call = Inr st1"
    using run_call_returns [of e call st] by auto
  with Cons show ?case by simp
qed

lemma run_rounds_exhausted:
  assumes "\<forall>i. round_idx \<le> i \<and> i < round_idx + n
             \<longrightarrow> (\<exists>c. complete_at e i = Inr c \<and> tool_calls_of c \<noteq> [])"
    and "run_rounds e intent n round_idx st = Inr (res, ts')"
  shows "or_status res = lit ''max_rounds_exceeded'' \<and> or_final_answer res = None
       \<and> or_rounds res = MAX_ROUNDS \<and> or_cited_turn_ids res = [] \<and> or_intent res = intent"
  using assms
proof (induction n arbitrary: round_idx st)
  case 0
  then show ?case by auto
next
  case (Suc n)
  from Suc.prems(1) obtain c where c: "complete_at e round_idx = Inr c" "tool_calls_of c \<noteq> []"
    by (metis le_refl less_add_Suc2 add_Suc_right less_add_same_cancel1 zero_less_Suc)
  let ?st1 = "st\<lparr>ls_messages := ls_messages st @
                [AssistantMessage (am_content (extract_message c)) (am_tool_calls (extract_message c))]\<rparr>"
  from Suc.prems(2) c obtain st2 where
    st2: "run_calls e ?st1 (tool_calls_of c) = Inr st2"
      "run_rounds e intent n (Suc round_idx) st2 = Inr (res, ts')"
    by (auto simp: Let_def tool_calls_of_def split: sum.splits)
  have "\<forall>i. Suc round_idx \<le> i \<and> i < Suc round_idx + n
             \<longrightarrow> (\<exists>c. complete_at e i = Inr c \<and> tool_calls_of c \<noteq> [])"
    using Suc.prems(1) by auto
  from Suc.IH [OF this st2(2)] show ?case .
qed

lemma run_rounds_returns:
  assumes "\<forall>i. round_idx \<le> i \<and> i < round_idx + n
             \<longrightarrow> (\<exists>c. complete_at e i = Inr c \<and> tool_calls_of c \<noteq> []
                      \<and> (\<forall>call \<in> set (tool_calls_of c). call_returns e call))"
  shows "\<exists>res ts'. run_rounds e intent n round_idx st = Inr (res, ts')"
  using assms
proof (induction n arbitrary: round_idx st)
  case 0
  then show ?case by simp
next
  case (Suc n)
  from Suc.prems obtain c where c: "complete_at e round_idx = Inr c" "tool_calls_of c \<noteq> []"
      "\<forall>call \<in> set (tool_calls_of c). call_returns e call"
    by (metis le_refl less_add_Suc2 add_Suc_right less_add_same_cancel1 zero_less_Suc)
  let ?st1 = "st\<lparr>ls_messages := ls_messages st @
                [AssistantMessage (am_content (extract_message c)) (am_tool_calls (extract_message c))]\<rparr>"
  obtain st2 where st2: "run_calls e ?st1 (tool_calls_of c) = Inr st2"
    using run_calls_returns [OF c(3)] by blast
  have "\<forall>i. Suc round_idx \<le> i \<and> i < Suc round_idx + n
             \<longrightarrow> (\<exists>c. complete_at e i = Inr c \<and> tool_calls_of c \<noteq> []
                      \<and> (\<forall>call \<in> set (tool_calls_of c). call_returns e call))"
    using Suc.prems by auto
  from Suc.IH [OF this, of st2] obtain res ts' where
    "run_rounds e intent n (Suc round_idx) st2 = Inr (res, ts')"
    by blast
  with c st2 show ?case
    by (simp add: Let_def tool_calls_of_def)
qed

lemma agent_run_no_answer:
  assumes "orchestrator_run e \<lparr>hydrated = 0\<rparr> intent = Inl err
         \<or> (\<exists>res ts'. orchestrator_run e \<lparr>hydrated = 0\<rparr> intent = Inr (res, ts')
               \<and> or_final_answer res = None)"
  shows "\<exists>err'. agent_run e given key intent sid d = ([], Inl err', d)"
  using assms by (auto simp: agent_run_def)

text \<open>The loop on the gateways of the examples, round by round.\<close>

lemma demo_json_loads_turn:
  "json_loads demo_env demo_turn_arguments = Some (JObj demo_turn_args)"
  by (simp add: demo_env_def demo_turn_args_def)

lemma demo_json_loads_peek:
  "json_loads demo_env demo_peek_arguments = Some (JObj [(lit ''query'', JStr (lit ''x''))])"
  by (simp add: demo_env_def demo_turn_arguments_def demo_peek_arguments_def lit_def)

lemma demo_turn_arguments_nonempty: "demo_turn_arguments \<noteq> []" "demo_peek_arguments \<noteq> []"
  by (simp_all add: demo_turn_arguments_def demo_peek_arguments_def lit_def)

lemma demo_turn_eval:
  assumes "corpus e = corpus demo_env" and "parse_uuid e = parse_uuid demo_env"
    and "hydrated ts < 20"
  shows "turn e ts (JObj demo_turn_args)
           = Inr (TurnOk demo_turn_data, ts\<lparr>hydrated := hydrated ts + 1\<rparr>)"
  using assms
  by (simp add: turn_def demo_env_def demo_turn_args_def get_or_def MAX_HYDRATE_TURNS_def
      demo_turn_def demo_turn_data_def truncate_text_def MAX_TURN_CHARS_def ensure_utc_def
      lit_def)

lemma tool_names_differ:
  "lit ''retrieval_turn'' \<noteq> lit ''retrieval_peek''" "lit ''retrieval_turn'' \<noteq> []"
  "lit ''retrieval_peek'' \<noteq> []" "lit ''unknown'' \<noteq> lit ''retrieval_turn''"
  "lit ''completed'' \<noteq> lit ''max_rounds_exceeded''"
  by (simp_all add: lit_def)

lemma demo_run_call_turn:
  assumes "corpus e = corpus demo_env" and "parse_uuid e = parse_uuid demo_env"
    and "json_loads e = json_loads demo_env" and "hydrated (ls_tools st) < 20"
  shows "run_call e st demo_turn_call
           = Inr (st\<lparr>ls_parsed_args := Some (JObj demo_turn_args),
                     ls_tools := (ls_tools st)\<lparr>hydrated := hydrated (ls_tools st) + 1\<rparr>,
                     ls_tool_runs := ls_tool_runs st @
                        [\<lparr>tr_tool = lit ''retrieval_turn'', tr_arguments = demo_turn_args,
                          tr_response = TurnOk demo_turn_data\<rparr>],
                     ls_messages := ls_messages st @
                        [ToolMessage (Some (lit ''call-1'')) (Some (lit ''retrieval_turn''))
                           (TurnOk demo_turn_data)]\<rparr>)"
  using assms demo_turn_eval [of e "ls_tools st"]
  by (simp add: run_call_def demo_turn_call_def demo_json_loads_turn dispatch_def
      demo_turn_arguments_nonempty tool_names_differ Let_def)

lemma tool_round_step:
  assumes "0 < n" and "complete_at e i = Inr (demo_tool_round call)"
  shows "run_rounds e intent n i st
           = (case run_call e (st\<lparr>ls_messages := ls_messages st @
                                   [AssistantMessage None (Some [call])]\<rparr>) call of
                Inl err \<Rightarrow> Inl err
              | Inr st2 \<Rightarrow> run_rounds e intent (n - 1) (i + 1) st2)"
proof -
  from assms(1) obtain k where "n = Suc k"
    by (cases n) auto
  then show ?thesis
    using assms(2)
    by (simp add: demo_tool_round_def extract_message_def Let_def split: sum.splits)
qed

lemma answer_round_step:
  assumes "0 < n" and "complete_at e i = Inr demo_answer"
  shows "run_rounds e intent n i st
           = (case cited_turn_ids (ls_tool_runs st) of
                Inl err \<Rightarrow> Inl err
              | Inr cited \<Rightarrow>
                  Inr (\<lparr>or_intent = intent, or_final_answer = Some (lit ''done''),
                        or_status = lit ''completed'', or_rounds = i,
                        or_tool_runs = ls_tool_runs st, or_cited_turn_ids = cited,
                        or_histogram = ls_histogram st\<rparr>,
                       ls_tools st))"
proof -
  from assms(1) obtain k where "n = Suc k"
    by (cases n) auto
  moreover have "strip (lit '' done '') = lit ''done''" "lit ''done'' \<noteq> []"
    by (simp_all add: strip_def isspace_def lit_def)
  ultimately show ?thesis
    using assms(2)
    by (simp add: demo_answer_def extract_message_def Let_def split: sum.splits)
qed

lemma hydrate_round:
  assumes "corpus e = corpus demo_env" and "parse_uuid e = parse_uuid demo_env"
    and "json_loads e = json_loads demo_env"
    and "0 < n" and "complete_at e i = Inr (demo_tool_round demo_turn_call)"
    and "hydrated (ls_tools st) < 20"
  shows "\<exists>st'. run_rounds e intent n i st = run_rounds e intent (n - 1) (i + 1) st'
           \<and> ls_tool_runs st' = ls_tool_runs st @ [demo_turn_run]
           \<and> ls_histogram st' = ls_histogram st
           \<and> hydrated (ls_tools st') = hydrated (ls_tools st) + 1"
proof -
  let ?st1 = "st\<lparr>ls_messages := ls_messages st @
                 [AssistantMessage None (Some [demo_turn_call])]\<rparr>"
  have h: "hydrated (ls_tools ?st1) < 20"
    using assms(6) by simp
  define st2 where "st2 = ?st1\<lparr>ls_parsed_args := Some (JObj demo_turn_args),
                     ls_tools := (ls_tools ?st1)\<lparr>hydrated := hydrated (ls_tools ?st1) + 1\<rparr>,
                     ls_tool_runs := ls_tool_runs ?st1 @
                        [\<lparr>tr_tool = lit ''retrieval_turn'', tr_arguments = demo_turn_args,
                          tr_response = TurnOk demo_turn_data\<rparr>],
                     ls_messages := ls_messages ?st1 @
                        [ToolMessage (Some (lit ''call-1'')) (Some (lit ''retrieval_turn''))
                           (TurnOk demo_turn_data)]\<rparr>"
  have rc: "run_call e ?st1 demo_turn_call = Inr st2"
    unfolding st2_def by (rule demo_run_call_turn [OF assms(1-3) h])
  have "run_rounds e intent n i st
          = (case run_call e ?st1 demo_turn_call of
               Inl err \<Rightarrow> Inl err
             | Inr st2 \<Rightarrow> run_rounds e intent (n - 1) (i + 1) st2)"
    by (rule tool_round_step [OF assms(4,5)])
  then have "run_rounds e intent n i st = run_rounds e intent (n - 1) (i + 1) st2"
    unfolding rc by simp
  then show ?thesis
    by (intro exI [of _ st2]) (simp add: st2_def demo_turn_run_def)
qed

lemma hydrate_rounds:
  assumes "corpus e = corpus demo_env" and "parse_uuid e = parse_uuid demo_env"
    and "json_loads e = json_loads demo_env"
    and "k \<le> n"
    and "\<forall>j. i \<le> j \<and> j < i + k \<longrightarrow> complete_at e j = Inr (demo_tool_round demo_turn_call)"
    and "hydrated (ls_tools st) + k \<le> 20"
  shows "\<exists>st'. run_rounds e intent n i st = run_rounds e intent (n - k) (i + k) st'
           \<and> ls_tool_runs st' = ls_tool_runs st @ replicate k demo_turn_run
           \<and> ls_histogram st' = ls_histogram st
           \<and> hydrated (ls_tools st') = hydrated (ls_tools st) + k"
  using assms(4-6)
proof (induction k arbitrary: n i st)
  case 0
  show ?case by (intro exI [of _ st]) simp
next
  case (Suc k)
  have "0 < n" "complete_at e i = Inr (demo_tool_round demo_turn_call)"
      "hydrated (ls_tools st) < 20"
    using Suc.prems by auto
  from hydrate_round [OF assms(1-3) this, of intent] obtain st1 where
    s1: "run_rounds e intent n i st = run_rounds e intent (n - 1) (i + 1) st1"
        "ls_tool_runs st1 = ls_tool_runs st @ [demo_turn_run]"
        "ls_histogram st1 = ls_histogram st"
        "hydrated (ls_tools st1) = hydrated (ls_tools st) + 1"
    by blast
  have "k \<le> n - 1"
      "\<forall>j. i + 1 \<le> j \<and> j < i + 1 + k
         \<longrightarrow> complete_at e j = Inr (demo_tool_round demo_turn_call)"
      "hydrated (ls_tools st1) + k \<le> 20"
    using Suc.prems s1(4) by auto
  from Suc.IH [OF this] obtain st' where
    "run_rounds e intent (n - 1) (i + 1) st1 = run_rounds e intent (n - 1 - k) (i + 1 + k) st'"
    "ls_tool_runs st' = ls_tool_runs st1 @ replicate k demo_turn_run"
    "ls_histogram st' = ls_histogram st1"
    "hydrated (ls_tools st') = hydrated (ls_tools st1) + k"
    by blast
  with s1 show ?case
    by (intro exI [of _ st']) (simp add: replicate_app_Cons_same)
qed

lemma cited_replicate:
  "cited_turn_ids (replicate k demo_turn_run) = Inr (replicate k (lit ''t1''))"
  by (induction k) (simp_all add: demo_turn_run_def demo_turn_data_def)

lemma successful_replicate:
  "successful_turn_ids (replicate k demo_turn_run) = replicate k (lit ''t1'')"
  by (induction k) (simp_all add: successful_turn_ids_def demo_turn_run_def demo_turn_data_def)

lemma tools_eq: "hydrated ts = k \<Longrightarrow> ts = \<lparr>hydrated = k\<rparr>"
  by (cases ts) simp

lemma answering_run:
  "orchestrator_run answering_env \<lparr>hydrated = 0\<rparr> (lit ''q'')
     = Inr (\<lparr>or_intent = lit ''q'', or_final_answer = Some (lit ''done''),
             or_status = lit ''completed'', or_rounds = 3,
             or_tool_runs = [demo_turn_run, demo_turn_run],
             or_cited_turn_ids = [lit ''t1'', lit ''t1''],
             or_histogram = None\<rparr>,
            \<lparr>hydrated = 2\<rparr>)"
proof -
  let ?st0 = "\<lparr>ls_messages = [SystemPrompt, UserMessage (strip (lit ''q''))], ls_tool_runs = [],
        ls_histogram = None, ls_parsed_args = None, ls_tools = \<lparr>hydrated = 0\<rparr>\<rparr>"
  have e: "corpus answering_env = corpus demo_env"
      "parse_uuid answering_env = parse_uuid demo_env"
      "json_loads answering_env = json_loads demo_env"
    by (simp_all add: answering_env_def)
  have c: "\<forall>j. 1 \<le> j \<and> j < 1 + 2
             \<longrightarrow> complete_at answering_env j = Inr (demo_tool_round demo_turn_call)"
      "complete_at answering_env 3 = Inr demo_answer"
    by (auto simp: answering_env_def)
  have "\<exists>st'. run_rounds answering_env (lit ''q'') 8 1 ?st0
                = run_rounds answering_env (lit ''q'') (8 - 2) (1 + 2) st'
            \<and> ls_tool_runs st' = ls_tool_runs ?st0 @ replicate 2 demo_turn_run
            \<and> ls_histogram st' = ls_histogram ?st0
            \<and> hydrated (ls_tools st') = hydrated (ls_tools ?st0) + 2"
    by (rule hydrate_rounds [OF e]) (use c in simp_all)
  then obtain st' where
    s0: "run_rounds answering_env (lit ''q'') 8 1 ?st0
          = run_rounds answering_env (lit ''q'') (8 - 2) (1 + 2) st'"
       "ls_tool_runs st' = ls_tool_runs ?st0 @ replicate 2 demo_turn_run"
       "ls_histogram st' = ls_histogram ?st0"
       "hydrated (ls_tools st') = hydrated (ls_tools ?st0) + 2"
    by blast
  have n: "(8::nat) - 2 = 6" "(1::nat) + 2 = 3"
    by simp_all
  have s: "run_rounds answering_env (lit ''q'') 8 1 ?st0
          = run_rounds answering_env (lit ''q'') 6 3 st'"
       "ls_tool_runs st' = replicate 2 demo_turn_run"
       "ls_histogram st' = None" "ls_tools st' = \<lparr>hydrated = 2\<rparr>"
    using s0 unfolding n by (simp_all add: tools_eq)
  have "cited_turn_ids (ls_tool_runs st') = Inr (replicate 2 (lit ''t1''))"
    using s(2) cited_replicate [of 2] by simp
  then have "run_rounds answering_env (lit ''q'') 6 3 st'
      = Inr (\<lparr>or_intent = lit ''q'', or_final_answer = Some (lit ''done''),
                        or_status = lit ''completed'', or_rounds = 3,
                        or_tool_runs = ls_tool_runs st',
                        or_cited_turn_ids = replicate 2 (lit ''t1''),
                        or_histogram = ls_histogram st'\<rparr>,
                       ls_tools st')"
    using answer_round_step [of 6 answering_env 3 "lit ''q''" st'] c(2) by simp
  with s show ?thesis
    by (simp add: orchestrator_run_def MAX_ROUNDS_def numeral_2_eq_2)
qed

lemma hydrating_run:
  "orchestrator_run hydrating_env \<lparr>hydrated = 0\<rparr> (lit ''q'')
     = Inr (\<lparr>or_intent = lit ''q'', or_final_answer = None,
             or_status = lit ''max_rounds_exceeded'', or_rounds = 8,
             or_tool_runs = replicate 8 demo_turn_run,
             or_cited_turn_ids = [],
             or_histogram = None\<rparr>,
            \<lparr>hydrated = 8\<rparr>)"
proof -
  let ?st0 = "\<lparr>ls_messages = [SystemPrompt, UserMessage (strip (lit ''q''))], ls_tool_runs = [],
        ls_histogram = None, ls_parsed_args = None, ls_tools = \<lparr>hydrated = 0\<rparr>\<rparr>"
  have e: "corpus hydrating_env = corpus demo_env"
      "parse_uuid hydrating_env = parse_uuid demo_env"
      "json_loads hydrating_env = json_loads demo_env"
    by (simp_all add: hydrating_env_def)
  have c: "\<forall>j. 1 \<le> j \<and> j < 1 + 8
             \<longrightarrow> complete_at hydrating_env j = Inr (demo_tool_round demo_turn_call)"
    by (auto simp: hydrating_env_def)
  have "\<exists>st'. run_rounds hydrating_env (lit ''q'') 8 1 ?st0
                = run_rounds hydrating_env (lit ''q'') (8 - 8) (1 + 8) st'
            \<and> ls_tool_runs st' = ls_tool_runs ?st0 @ replicate 8 demo_turn_run
            \<and> ls_histogram st' = ls_histogram ?st0
            \<and> hydrated (ls_tools st') = hydrated (ls_tools ?st0) + 8"
    by (rule hydrate_rounds [OF e]) (use c in simp_all)
  then obtain st' where
    s0: "run_rounds hydrating_env (lit ''q'') 8 1 ?st0
          = run_rounds hydrating_env (lit ''q'') (8 - 8) (1 + 8) st'"
       "ls_tool_runs st' = ls_tool_runs ?st0 @ replicate 8 demo_turn_run"
       "ls_histogram st' = ls_histogram ?st0"
       "hydrated (ls_tools st') = hydrated (ls_tools ?st0) + 8"
    by blast
  have n: "(8::nat) - 8 = 0" "(1::nat) + 8 = 9"
    by simp_all
  have s: "run_rounds hydrating_env (lit ''q'') 8 1 ?st0
          = run_rounds hydrating_env (lit ''q'') 0 9 st'"
       "ls_tool_runs st' = replicate 8 demo_turn_run"
       "ls_histogram st' = None" "ls_tools st' = \<lparr>hydrated = 8\<rparr>"
    using s0 unfolding n by (simp_all add: tools_eq)
  then show ?thesis
    by (simp add: orchestrator_run_def MAX_ROUNDS_def)
qed

lemma aborting_run:
  "orchestrator_run aborting_env \<lparr>hydrated = 0\<rparr> (lit ''q'') = Inl (HTTPException 502)"
proof -
  let ?st0 = "\<lparr>ls_messages = [SystemPrompt, UserMessage (strip (lit ''q''))], ls_tool_runs = [],
        ls_histogram = None, ls_parsed_args = None, ls_tools = \<lparr>hydrated = 0\<rparr>\<rparr>"
  have e: "corpus aborting_env = corpus demo_env"
      "parse_uuid aborting_env = parse_uuid demo_env"
      "json_loads aborting_env = json_loads demo_env"
    by (simp_all add: aborting_env_def)
  have c: "\<forall>j. 1 \<le> j \<and> j < 1 + 7
             \<longrightarrow> complete_at aborting_env j = Inr (demo_tool_round demo_turn_call)"
      "complete_at aborting_env 8 = Inr (demo_tool_round demo_peek_call)"
    by (auto simp: aborting_env_def)
  have "\<exists>st'. run_rounds aborting_env (lit ''q'') 8 1 ?st0
                = run_rounds aborting_env (lit ''q'') (8 - 7) (1 + 7) st'
            \<and> ls_tool_runs st' = ls_tool_runs ?st0 @ replicate 7 demo_turn_run
            \<and> ls_histogram st' = ls_histogram ?st0
            \<and> hydrated (ls_tools st') = hydrated (ls_tools ?st0) + 7"
    by (rule hydrate_rounds [OF e]) (use c in simp_all)
  then obtain st' where
    s0: "run_rounds aborting_env (lit ''q'') 8 1 ?st0
          = run_rounds aborting_env (lit ''q'') (8 - 7) (1 + 7) st'"
       "ls_tool_runs st' = ls_tool_runs ?st0 @ replicate 7 demo_turn_run"
    by blast
  have n: "(8::nat) - 7 = 1" "(1::nat) + 7 = 8"
    by simp_all
  have s: "run_rounds aborting_env (lit ''q'') 8 1 ?st0
          = run_rounds aborting_env (lit ''q'') 1 8 st'"
       "ls_tool_runs st' = replicate 7 demo_turn_run"
    using s0 unfolding n by simp_all
  have pk: "peek aborting_env (JObj [(lit ''query'', JStr (lit ''x''))]) = Inl (HTTPException 502)"
    by (simp add: peek_def peek_arguments_def peek_probe_def aborting_env_def demo_env_def
        get_or_def lit_def strip_def isspace_def DEFAULT_TOP_K_def DEFAULT_BIN_DAYS_def
        DEFAULT_TOP_N_SNIPPETS_def parse_iso_datetime_def)
  have "run_call aborting_env st1 demo_peek_call = Inl (HTTPException 502)" for st1
    using pk
    by (simp add: run_call_def demo_peek_call_def e demo_json_loads_peek dispatch_def
        demo_turn_arguments_nonempty Let_def)
  then have "run_rounds aborting_env (lit ''q'') 1 8 st' = Inl (HTTPException 502)"
    using tool_round_step [of 1 aborting_env 8 demo_peek_call "lit ''q''" st'] c(2) by simp
  with s show ?thesis
    by (simp add: orchestrator_run_def MAX_ROUNDS_def)
qed

lemma hydrating_completions:
  "\<forall>i \<in> {1..8}. \<exists>c. complete_at hydrating_env i = Inr c \<and> tool_calls_of c \<noteq> []"
  by (simp add: hydrating_env_def tool_calls_of_def extract_message_def demo_tool_round_def)

lemma hydrating_calls_return:
  "\<forall>i \<in> {1..8}. \<forall>c. complete_at hydrating_env i = Inr c
               \<longrightarrow> (\<forall>call \<in> set (tool_calls_of c). call_returns hydrating_env call)"
  by (auto simp: hydrating_env_def tool_calls_of_def extract_message_def demo_tool_round_def
      call_returns_def demo_turn_call_def demo_env_def demo_turn_arguments_def
      demo_peek_arguments_def lit_def)

lemma demo_tool_calls:
  "tool_calls_of (demo_tool_round call) = [call]"
  by (simp add: tool_calls_of_def demo_tool_round_def extract_message_def)

lemma demo_blank_degenerate: "degenerate demo_blank"
  by (simp add: degenerate_def demo_blank_def tool_calls_of_def extract_message_def strip_def
      isspace_def lit_def)

text \<open>
  The log of a run holds no \<open>retrieval_turn\<close> entry with the data of a peek, so the
  comprehension that collects the cited turn ids never fails on it and gives the turn ids of
  the successful hydrate runs.
\<close>

lemma cited_turn_ids_successful:
  assumes "\<forall>tr \<in> set runs. tr_tool tr = lit ''retrieval_turn''
             \<longrightarrow> (\<forall>d. tr_response tr \<noteq> PeekOk d)"
  shows "cited_turn_ids runs = Inr (successful_turn_ids runs)"
  using assms
proof (induction runs)
  case Nil
  show ?case by (simp add: successful_turn_ids_def)
next
  case (Cons tr runs)
  then have ih: "cited_turn_ids runs = Inr (successful_turn_ids runs)"
    by simp
  show ?case
  proof (cases "tr_tool tr = lit ''retrieval_turn''")
    case True
    with Cons.prems have "\<forall>d. tr_response tr \<noteq> PeekOk d"
      by simp
    with True ih show ?thesis
      by (cases "tr_response tr") (simp_all add: successful_turn_ids_def)
  next
    case False
    with ih show ?thesis
      by (simp add: successful_turn_ids_def)
  qed
qed

lemma run_call_log:
  assumes "run_call e st call = Inr st'"
  shows "\<exists>tr. ls_tool_runs st' = ls_tool_runs st @ [tr]
           \<and> (tr_tool tr = lit ''retrieval_turn'' \<longrightarrow> (\<forall>d. tr_response tr \<noteq> PeekOk d))"
proof -
  let ?raw = "case tc_arguments call of None \<Rightarrow> lit ''{}'' | Some a \<Rightarrow> if a = [] then lit ''{}'' else a"
  show ?thesis
  proof (cases "json_loads e ?raw")
    case None
    with assms show ?thesis
      by (auto simp: run_call_def Let_def split: option.splits)
  next
    case (Some parsed)
    with assms obtain r ts where
      d: "dispatch e (ls_tools st) (tc_name call) parsed = Inr (r, ts)"
      by (auto simp: run_call_def Let_def split: sum.splits)
    have "ls_tool_runs st' = ls_tool_runs st @
            [\<lparr>tr_tool = (case tc_name call of None \<Rightarrow> lit ''unknown''
                          | Some n \<Rightarrow> if n = [] then lit ''unknown'' else n),
              tr_arguments = (case parsed of JObj kvs \<Rightarrow> kvs | _ \<Rightarrow> []),
              tr_response = r\<rparr>]"
      using assms Some d by (auto simp: run_call_def Let_def)
    moreover have "\<forall>d. r \<noteq> PeekOk d"
      if "(case tc_name call of None \<Rightarrow> lit ''unknown''
           | Some n \<Rightarrow> if n = [] then lit ''unknown'' else n) = lit ''retrieval_turn''"
    proof -
      from that have "tc_name call = Some (lit ''retrieval_turn'')"
        using tool_names_differ by (auto split: option.splits if_splits)
      with d have "turn e (ls_tools st) parsed = Inr (r, ts)"
        using tool_names_differ by (simp add: dispatch_def)
      then show ?thesis
        using turn_not_peek_data by blast
    qed
    ultimately show ?thesis
      by simp
  qed
qed

lemma run_calls_log:
  assumes "run_calls e st calls = Inr st'"
    and "\<forall>tr \<in> set (ls_tool_runs st). tr_tool tr = lit ''retrieval_turn''
             \<longrightarrow> (\<forall>d. tr_response tr \<noteq> PeekOk d)"
  shows "\<forall>tr \<in> set (ls_tool_runs st'). tr_tool tr = lit ''retrieval_turn''
             \<longrightarrow> (\<forall>d. tr_response tr \<noteq> PeekOk d)"
  using assms
proof (induction calls arbitrary: st)
  case Nil
  then show ?case by simp
next
  case (Cons call calls)
  from Cons.prems(1) obtain st1 where
    s: "run_call e st call = Inr st1" "run_calls e st1 calls = Inr st'"
    by (auto split: sum.splits)
  from run_call_log [OF s(1)] Cons.prems(2)
  have "\<forall>tr \<in> set (ls_tool_runs st1). tr_tool tr = lit ''retrieval_turn''
             \<longrightarrow> (\<forall>d. tr_response tr \<noteq> PeekOk d)"
    by auto
  from Cons.IH [OF s(2) this] show ?case .
qed

lemma run_rounds_cited:
  assumes "run_rounds e intent n round_idx st = Inr (res, ts')"
    and "\<forall>tr \<in> set (ls_tool_runs st). tr_tool tr = lit ''retrieval_turn''
             \<longrightarrow> (\<forall>d. tr_response tr \<noteq> PeekOk d)"
  shows "(or_status res = lit ''completed''
            \<and> or_cited_turn_ids res = successful_turn_ids (or_tool_runs res))
       \<or> (or_status res = lit ''max_rounds_exceeded'' \<and> or_cited_turn_ids res = [])"
  using assms
proof (induction n arbitrary: round_idx st)
  case 0
  then show ?case by auto
next
  case (Suc n)
  from Suc.prems(1) obtain c where c: "complete_at e round_idx = Inr c"
    by (auto split: sum.splits)
  let ?m = "extract_message c"
  let ?st1 = "st\<lparr>ls_messages := ls_messages st @
                [AssistantMessage (am_content ?m) (am_tool_calls ?m)]\<rparr>"
  have inv1: "\<forall>tr \<in> set (ls_tool_runs ?st1). tr_tool tr = lit ''retrieval_turn''
             \<longrightarrow> (\<forall>d. tr_response tr \<noteq> PeekOk d)"
    using Suc.prems(2) by simp
  show ?case
  proof (cases "tool_calls_of c = []")
    case False
    with Suc.prems(1) c obtain st2 where
      st2: "run_calls e ?st1 (tool_calls_of c) = Inr st2"
        "run_rounds e intent n (Suc round_idx) st2 = Inr (res, ts')"
      by (auto simp: Let_def tool_calls_of_def split: sum.splits)
    from Suc.IH [OF st2(2) run_calls_log [OF st2(1) inv1]] show ?thesis .
  next
    case True
    show ?thesis
    proof (cases "strip (case am_content ?m of None \<Rightarrow> [] | Some t \<Rightarrow> t) = []")
      case True
      with \<open>tool_calls_of c = []\<close> Suc.prems(1) c
      have "run_rounds e intent n (Suc round_idx) ?st1 = Inr (res, ts')"
        by (simp add: Let_def tool_calls_of_def)
      from Suc.IH [OF this inv1] show ?thesis .
    next
      case False
      have "cited_turn_ids (ls_tool_runs ?st1) = Inr (successful_turn_ids (ls_tool_runs ?st1))"
        by (rule cited_turn_ids_successful [OF inv1])
      with False \<open>tool_calls_of c = []\<close> Suc.prems(1) c show ?thesis
        by (auto simp: Let_def tool_calls_of_def)
    qed
  qed
qed

text \<open>A blank completion costs a round and changes the history only.\<close>

lemma degenerate_step:
  assumes "complete_at e round_idx = Inr c" and "degenerate c"
  shows "run_rounds e intent (Suc remaining) round_idx st
           = run_rounds e intent remaining (Suc round_idx)
               (st\<lparr>ls_messages := ls_messages st @
                     [AssistantMessage (am_content (extract_message c))
                        (am_tool_calls (extract_message c))]\<rparr>)"
  using assms by (simp add: degenerate_def tool_calls_of_def Let_def)

lemma degenerate_rounds:
  assumes "\<forall>i. round_idx \<le> i \<and> i < round_idx + n
             \<longrightarrow> (\<exists>c. complete_at e i = Inr c \<and> degenerate c)"
  shows "run_rounds e intent n round_idx st
           = Inr (\<lparr>or_intent = intent, or_final_answer = None,
                   or_status = lit ''max_rounds_exceeded'', or_rounds = MAX_ROUNDS,
                   or_tool_runs = ls_tool_runs st, or_cited_turn_ids = [],
                   or_histogram = ls_histogram st\<rparr>,
                  ls_tools st)"
  using assms
proof (induction n arbitrary: round_idx st)
  case 0
  show ?case by simp
next
  case (Suc n)
  from Suc.prems obtain c where c: "complete_at e round_idx = Inr c" "degenerate c"
    by (metis le_refl less_add_Suc2 add_Suc_right less_add_same_cancel1 zero_less_Suc)
  have "\<forall>i. Suc round_idx \<le> i \<and> i < Suc round_idx + n
             \<longrightarrow> (\<exists>c. complete_at e i = Inr c \<and> degenerate c)"
    using Suc.prems by auto
  from Suc.IH [OF this] show ?case
    unfolding degenerate_step [OF c] by simp
qed

subsection \<open>Exhausting the rounds\<close>

text \<open>
  Claim C1, as amended. Let each of the eight completion responses of a run contain tool
  calls. Then every result \<^verbatim>\<open>LLMOrchestrator.run\<close> returns has the status
  \<^verbatim>\<open>max_rounds_exceeded\<close>, no final answer, \<open>rounds = 8\<close> and no cited turn; the run does
  return a result when every tool call of these rounds returns a response, which a call
  does when its arguments decode to a dictionary and, for a peek, the peek itself does not
  raise; and \<^verbatim>\<open>AgentService.run\<close> ends with an error, having made no call to the persistence
  interface and left the database as it was, whether the loop returned or raised.
\<close>

theorem run_exhausts_rounds:
  assumes "\<forall>i \<in> {1..8}. \<exists>c. complete_at e i = Inr c \<and> tool_calls_of c \<noteq> []"
  shows "(\<forall>res ts'. orchestrator_run e ts intent = Inr (res, ts') \<longrightarrow>
            or_status res = lit ''max_rounds_exceeded'' \<and> or_final_answer res = None
          \<and> or_rounds res = 8 \<and> or_cited_turn_ids res = [])
       \<and> ((\<forall>i \<in> {1..8}. \<forall>c. complete_at e i = Inr c
               \<longrightarrow> (\<forall>call \<in> set (tool_calls_of c). call_returns e call))
            \<longrightarrow> (\<exists>res ts'. orchestrator_run e ts intent = Inr (res, ts')))
       \<and> (\<forall>given key sid d. \<exists>err. agent_run e given key intent sid d = ([], Inl err, d))
       \<and> MAX_ROUNDS = 8"
proof -
  have m: "MAX_ROUNDS = 8"
    by (simp add: MAX_ROUNDS_def)
  have all: "\<forall>i. 1 \<le> i \<and> i < 1 + MAX_ROUNDS
             \<longrightarrow> (\<exists>c. complete_at e i = Inr c \<and> tool_calls_of c \<noteq> [])"
    using assms by (auto simp: m)
  have res: "\<And>ts res ts'. orchestrator_run e ts intent = Inr (res, ts') \<Longrightarrow>
            or_status res = lit ''max_rounds_exceeded'' \<and> or_final_answer res = None
          \<and> or_rounds res = 8 \<and> or_cited_turn_ids res = []"
    using run_rounds_exhausted [OF all] by (auto simp: orchestrator_run_def m)
  have ret: "(\<forall>i \<in> {1..8}. \<forall>c. complete_at e i = Inr c
               \<longrightarrow> (\<forall>call \<in> set (tool_calls_of c). call_returns e call))
            \<longrightarrow> (\<exists>res ts'. orchestrator_run e ts intent = Inr (res, ts'))"
  proof
    assume a: "\<forall>i \<in> {1..8}. \<forall>c. complete_at e i = Inr c
               \<longrightarrow> (\<forall>call \<in> set (tool_calls_of c). call_returns e call)"
    have "\<forall>i. 1 \<le> i \<and> i < 1 + MAX_ROUNDS
             \<longrightarrow> (\<exists>c. complete_at e i = Inr c \<and> tool_calls_of c \<noteq> []
                      \<and> (\<forall>call \<in> set (tool_calls_of c). call_returns e call))"
    proof (intro allI impI)
      fix i
      assume "1 \<le> i \<and> i < 1 + MAX_ROUNDS"
      then have i: "i \<in> {1..8}"
        by (auto simp: m)
      with assms obtain c where "complete_at e i = Inr c" "tool_calls_of c \<noteq> []"
        by blast
      with a i show "\<exists>c. complete_at e i = Inr c \<and> tool_calls_of c \<noteq> []
                      \<and> (\<forall>call \<in> set (tool_calls_of c). call_returns e call)"
        by blast
    qed
    from run_rounds_returns [OF this]
    show "\<exists>res ts'. orchestrator_run e ts intent = Inr (res, ts')"
      by (simp add: orchestrator_run_def)
  qed
  have ag: "\<forall>given key sid d. \<exists>err. agent_run e given key intent sid d = ([], Inl err, d)"
  proof (intro allI)
    fix given key sid d
    have "orchestrator_run e \<lparr>hydrated = 0\<rparr> intent
            = Inl (projl (orchestrator_run e \<lparr>hydrated = 0\<rparr> intent))
         \<or> (\<exists>res ts'. orchestrator_run e \<lparr>hydrated = 0\<rparr> intent = Inr (res, ts')
               \<and> or_final_answer res = None)"
      using res [of "\<lparr>hydrated = 0\<rparr>"]
      by (cases "orchestrator_run e \<lparr>hydrated = 0\<rparr> intent") auto
    from agent_run_no_answer [OF this]
    show "\<exists>err. agent_run e given key intent sid d = ([], Inl err, d)" .
  qed
  from res ret ag m show ?thesis
    by blast
qed

text \<open>
  The theorem at the gateway that asks to hydrate \<open>t1\<close> in each of the eight rounds.
\<close>

theorem run_exhausts_rounds_witness:
  "(\<exists>res ts'. orchestrator_run hydrating_env \<lparr>hydrated = 0\<rparr> (lit ''q'') = Inr (res, ts')
       \<and> or_status res = lit ''max_rounds_exceeded'' \<and> or_final_answer res = None
       \<and> or_rounds res = 8)
   \<and> (\<exists>err. agent_run hydrating_env True None (lit ''q'') None demo_db = ([], Inl err, demo_db))"
proof -
  note t = run_exhausts_rounds [OF hydrating_completions, of "\<lparr>hydrated = 0\<rparr>" "lit ''q''"]
  from t hydrating_calls_return obtain res ts' where
    r: "orchestrator_run hydrating_env \<lparr>hydrated = 0\<rparr> (lit ''q'') = Inr (res, ts')"
    by blast
  with t have "or_status res = lit ''max_rounds_exceeded'' \<and> or_final_answer res = None
       \<and> or_rounds res = 8"
    by blast
  moreover from t have "\<exists>err. agent_run hydrating_env True None (lit ''q'') None demo_db
       = ([], Inl err, demo_db)"
    by blast
  ultimately show ?thesis
    using r by blast
qed

text \<open>
  Claim C1 as stated fails: with the gateway that asks for a hydrate in rounds one to
  seven and for a peek in round eight, every completion contains a tool call, and the run
  raises the \<^verbatim>\<open>HTTPException\<close> of the failing embedding gateway instead of returning a
  result.
\<close>

theorem run_aborts_counterexample:
  "map (complete_at aborting_env) [1, 2, 3, 4, 5, 6, 7, 8]
     = replicate 7 (Inr (demo_tool_round demo_turn_call)) @ [Inr (demo_tool_round demo_peek_call)]
   \<and> tool_calls_of (demo_tool_round demo_turn_call) = [demo_turn_call]
   \<and> tool_calls_of (demo_tool_round demo_peek_call) = [demo_peek_call]
   \<and> orchestrator_run aborting_env \<lparr>hydrated = 0\<rparr> (lit ''q'') = Inl (HTTPException 502)"
proof -
  have "map (complete_at aborting_env) [1, 2, 3, 4, 5, 6, 7, 8]
     = replicate 7 (Inr (demo_tool_round demo_turn_call)) @ [Inr (demo_tool_round demo_peek_call)]"
    by (simp add: aborting_env_def numeral_eq_Suc)
  with demo_tool_calls aborting_run show ?thesis
    by simp
qed

subsection \<open>Cited turn ids\<close>

text \<open>
  Claim C3, as amended. The result of a run of \<^verbatim>\<open>LLMOrchestrator.run\<close> has the status
  \<^verbatim>\<open>completed\<close> or \<^verbatim>\<open>max_rounds_exceeded\<close>. With the status \<^verbatim>\<open>completed\<close> its field
  \<^verbatim>\<open>cited_turn_ids\<close> is the list of the turn ids of the successful \<^verbatim>\<open>retrieval_turn\<close> runs
  of its log, in the order of the log and with every repetition; with the status
  \<^verbatim>\<open>max_rounds_exceeded\<close> it is the empty list, whatever the log holds.
\<close>

theorem cited_turn_ids_of_run:
  assumes "orchestrator_run e ts intent = Inr (res, ts')"
  shows "(or_status res = lit ''completed'' \<or> or_status res = lit ''max_rounds_exceeded'')
       \<and> (or_status res = lit ''completed''
            \<longrightarrow> or_cited_turn_ids res = successful_turn_ids (or_tool_runs res))
       \<and> (or_status res = lit ''max_rounds_exceeded'' \<longrightarrow> or_cited_turn_ids res = [])"
proof -
  have "(or_status res = lit ''completed''
            \<and> or_cited_turn_ids res = successful_turn_ids (or_tool_runs res))
       \<or> (or_status res = lit ''max_rounds_exceeded'' \<and> or_cited_turn_ids res = [])"
    by (rule run_rounds_cited [OF assms [unfolded orchestrator_run_def]]) simp
  then show ?thesis
    using tool_names_differ(5) by auto
qed

text \<open>
  The theorem at the gateway that hydrates \<open>t1\<close> twice and then answers: the turn is
  cited twice.
\<close>

theorem cited_turn_ids_of_run_witness:
  "orchestrator_run answering_env \<lparr>hydrated = 0\<rparr> (lit ''q'')
     = Inr (\<lparr>or_intent = lit ''q'', or_final_answer = Some (lit ''done''),
             or_status = lit ''completed'', or_rounds = 3,
             or_tool_runs = [demo_turn_run, demo_turn_run],
             or_cited_turn_ids = [lit ''t1'', lit ''t1''],
             or_histogram = None\<rparr>,
            \<lparr>hydrated = 2\<rparr>)
   \<and> successful_turn_ids [demo_turn_run, demo_turn_run] = [lit ''t1'', lit ''t1'']"
  using cited_turn_ids_of_run [OF answering_run] answering_run by simp

text \<open>
  Claim C3 as stated fails: the run that hydrates \<open>t1\<close> in each of its eight rounds ends
  with the status \<^verbatim>\<open>max_rounds_exceeded\<close>, eight successful hydrate runs in its log and no
  cited turn.
\<close>

theorem cited_turn_ids_exhausted_counterexample:
  "orchestrator_run hydrating_env \<lparr>hydrated = 0\<rparr> (lit ''q'')
     = Inr (\<lparr>or_intent = lit ''q'', or_final_answer = None,
             or_status = lit ''max_rounds_exceeded'', or_rounds = 8,
             or_tool_runs = replicate 8 demo_turn_run,
             or_cited_turn_ids = [],
             or_histogram = None\<rparr>,
            \<lparr>hydrated = 8\<rparr>)
   \<and> successful_turn_ids (replicate 8 demo_turn_run) = replicate 8 (lit ''t1'')
   \<and> replicate 8 (lit ''t1'') \<noteq> ([] :: str list)"
  using hydrating_run successful_replicate [of 8] by simp

subsection \<open>Blank completions\<close>

text \<open>
  A completion with no tool call and some text ends the run; blank rounds before it are
  passed one by one, each at the cost of a round.
\<close>

lemma answer_step:
  assumes "complete_at e round_idx = Inr c" and "tool_calls_of c = []"
    and "strip (case am_content (extract_message c) of None \<Rightarrow> [] | Some t \<Rightarrow> t) \<noteq> []"
  shows "run_rounds e intent (Suc remaining) round_idx st
           = (case cited_turn_ids (ls_tool_runs st) of
                Inl err \<Rightarrow> Inl err
              | Inr cited \<Rightarrow>
                  Inr (\<lparr>or_intent = intent,
                        or_final_answer =
                          Some (strip (case am_content (extract_message c) of
                                         None \<Rightarrow> [] | Some t \<Rightarrow> t)),
                        or_status = lit ''completed'', or_rounds = round_idx,
                        or_tool_runs = ls_tool_runs st, or_cited_turn_ids = cited,
                        or_histogram = ls_histogram st\<rparr>,
                       ls_tools st))"
  using assms by (simp add: tool_calls_of_def Let_def split: sum.splits)

lemma degenerate_rounds_then:
  assumes "\<forall>i. round_idx \<le> i \<and> i < round_idx + k
             \<longrightarrow> (\<exists>c. complete_at e i = Inr c \<and> degenerate c)"
  shows "\<exists>st'. run_rounds e intent (k + n) round_idx st
                 = run_rounds e intent n (round_idx + k) st'
           \<and> ls_tool_runs st' = ls_tool_runs st \<and> ls_histogram st' = ls_histogram st
           \<and> ls_tools st' = ls_tools st"
  using assms
proof (induction k arbitrary: round_idx st)
  case 0
  show ?case by (intro exI [of _ st]) simp
next
  case (Suc k)
  from Suc.prems obtain c where c: "complete_at e round_idx = Inr c" "degenerate c"
    by (metis le_refl less_add_Suc2 add_Suc_right less_add_same_cancel1 zero_less_Suc)
  let ?st1 = "st\<lparr>ls_messages := ls_messages st @
                     [AssistantMessage (am_content (extract_message c))
                        (am_tool_calls (extract_message c))]\<rparr>"
  have "\<forall>i. Suc round_idx \<le> i \<and> i < Suc round_idx + k
             \<longrightarrow> (\<exists>c. complete_at e i = Inr c \<and> degenerate c)"
    using Suc.prems by auto
  from Suc.IH [OF this, of ?st1] obtain st' where
    "run_rounds e intent (k + n) (Suc round_idx) ?st1
       = run_rounds e intent n (Suc round_idx + k) st'"
    "ls_tool_runs st' = ls_tool_runs ?st1" "ls_histogram st' = ls_histogram ?st1"
    "ls_tools st' = ls_tools ?st1"
    by blast
  then show ?case
    using degenerate_step [OF c, of intent "k + n" st]
    by (intro exI [of _ st']) simp
qed

lemma degenerate_rounds_answer:
  assumes "\<forall>i. round_idx \<le> i \<and> i < round_idx + k
             \<longrightarrow> (\<exists>c. complete_at e i = Inr c \<and> degenerate c)"
    and "k < n"
    and "complete_at e (round_idx + k) = Inr c" and "tool_calls_of c = []"
    and "strip (case am_content (extract_message c) of None \<Rightarrow> [] | Some t \<Rightarrow> t) \<noteq> []"
  shows "run_rounds e intent n round_idx st
           = (case cited_turn_ids (ls_tool_runs st) of
                Inl err \<Rightarrow> Inl err
              | Inr cited \<Rightarrow>
                  Inr (\<lparr>or_intent = intent,
                        or_final_answer =
                          Some (strip (case am_content (extract_message c) of
                                         None \<Rightarrow> [] | Some t \<Rightarrow> t)),
                        or_status = lit ''completed'', or_rounds = round_idx + k,
                        or_tool_runs = ls_tool_runs st, or_cited_turn_ids = cited,
                        or_histogram = ls_histogram st\<rparr>,
                       ls_tools st))"
proof -
  from assms(2) obtain m where n: "n = k + Suc m"
    by (metis less_iff_Suc_add add_Suc_right)
  from degenerate_rounds_then [OF assms(1), of intent "Suc m" st] obtain st' where
    s: "run_rounds e intent (k + Suc m) round_idx st
          = run_rounds e intent (Suc m) (round_idx + k) st'"
       "ls_tool_runs st' = ls_tool_runs st" "ls_histogram st' = ls_histogram st"
       "ls_tools st' = ls_tools st"
    by blast
  show ?thesis
    unfolding n s(1) answer_step [OF assms(3-5)] s(2-4) ..
qed

lemma demo_answer_text:
  "tool_calls_of demo_answer = []"
  "strip (case am_content (extract_message demo_answer) of None \<Rightarrow> [] | Some t \<Rightarrow> t)
     = lit ''done''"
  "lit ''done'' \<noteq> []"
  by (simp_all add: tool_calls_of_def demo_answer_def extract_message_def strip_def isspace_def
      lit_def)

text \<open>
  Claim C6. A completion with no tool calls whose text is empty or white space only does
  not end the run: the assistant message is appended to the history, nothing else
  changes, and the loop goes on with the next round, one round fewer remaining. When every
  remaining round is of this kind the loop ends by exhaustion, with the status
  \<^verbatim>\<open>max_rounds_exceeded\<close>; in particular a run of eight such rounds does. When \<open>k\<close> such
  rounds, fewer than the rounds that remain, are followed by a completion with no tool
  call and some text, the loop asks for that completion and the run is completed in that
  round, \<open>rounds\<close> being its number: the blank rounds were counted and passed.
\<close>

theorem degenerate_round_consumed:
  "(complete_at e round_idx = Inr c \<and> degenerate c
      \<longrightarrow> run_rounds e intent (Suc remaining) round_idx st
           = run_rounds e intent remaining (Suc round_idx)
               (st\<lparr>ls_messages := ls_messages st @
                     [AssistantMessage (am_content (extract_message c))
                        (am_tool_calls (extract_message c))]\<rparr>))
   \<and> ((\<forall>i. round_idx \<le> i \<and> i < round_idx + n
             \<longrightarrow> (\<exists>c. complete_at e i = Inr c \<and> degenerate c))
      \<longrightarrow> run_rounds e intent n round_idx st
           = Inr (\<lparr>or_intent = intent, or_final_answer = None,
                   or_status = lit ''max_rounds_exceeded'', or_rounds = 8,
                   or_tool_runs = ls_tool_runs st, or_cited_turn_ids = [],
                   or_histogram = ls_histogram st\<rparr>,
                  ls_tools st))
   \<and> ((\<forall>i \<in> {1..8}. \<exists>c. complete_at e i = Inr c \<and> degenerate c)
      \<longrightarrow> orchestrator_run e ts intent
           = Inr (\<lparr>or_intent = intent, or_final_answer = None,
                   or_status = lit ''max_rounds_exceeded'', or_rounds = 8,
                   or_tool_runs = [], or_cited_turn_ids = [], or_histogram = None\<rparr>,
                  ts))
   \<and> ((\<forall>i. round_idx \<le> i \<and> i < round_idx + k
             \<longrightarrow> (\<exists>c. complete_at e i = Inr c \<and> degenerate c))
        \<and> k < n \<and> complete_at e (round_idx + k) = Inr c' \<and> tool_calls_of c' = []
        \<and> strip (case am_content (extract_message c') of None \<Rightarrow> [] | Some t \<Rightarrow> t) \<noteq> []
      \<longrightarrow> run_rounds e intent n round_idx st
           = (case cited_turn_ids (ls_tool_runs st) of
                Inl err \<Rightarrow> Inl err
              | Inr cited \<Rightarrow>
                  Inr (\<lparr>or_intent = intent,
                        or_final_answer =
                          Some (strip (case am_content (extract_message c') of
                                         None \<Rightarrow> [] | Some t \<Rightarrow> t)),
                        or_status = lit ''completed'', or_rounds = round_idx + k,
                        or_tool_runs = ls_tool_runs st, or_cited_turn_ids = cited,
                        or_histogram = ls_histogram st\<rparr>,
                       ls_tools st)))
   \<and> ((\<forall>i. 1 \<le> i \<and> i < 1 + k \<longrightarrow> (\<exists>c. complete_at e i = Inr c \<and> degenerate c))
        \<and> k < 8 \<and> complete_at e (1 + k) = Inr c' \<and> tool_calls_of c' = []
        \<and> strip (case am_content (extract_message c') of None \<Rightarrow> [] | Some t \<Rightarrow> t) \<noteq> []
      \<longrightarrow> orchestrator_run e ts intent
           = Inr (\<lparr>or_intent = intent,
                   or_final_answer =
                     Some (strip (case am_content (extract_message c') of
                                    None \<Rightarrow> [] | Some t \<Rightarrow> t)),
                   or_status = lit ''completed'', or_rounds = 1 + k,
                   or_tool_runs = [], or_cited_turn_ids = [], or_histogram = None\<rparr>,
                  ts))"
proof (intro conjI impI)
  assume "complete_at e round_idx = Inr c \<and> degenerate c"
  then show "run_rounds e intent (Suc remaining) round_idx st
           = run_rounds e intent remaining (Suc round_idx)
               (st\<lparr>ls_messages := ls_messages st @
                     [AssistantMessage (am_content (extract_message c))
                        (am_tool_calls (extract_message c))]\<rparr>)"
    using degenerate_step by blast
next
  assume "\<forall>i. round_idx \<le> i \<and> i < round_idx + n
             \<longrightarrow> (\<exists>c. complete_at e i = Inr c \<and> degenerate c)"
  from degenerate_rounds [OF this]
  show "run_rounds e intent n round_idx st
           = Inr (\<lparr>or_intent = intent, or_final_answer = None,
                   or_status = lit ''max_rounds_exceeded'', or_rounds = 8,
                   or_tool_runs = ls_tool_runs st, or_cited_turn_ids = [],
                   or_histogram = ls_histogram st\<rparr>,
                  ls_tools st)"
    by (simp add: MAX_ROUNDS_def)
next
  assume a: "\<forall>i \<in> {1..8}. \<exists>c. complete_at e i = Inr c \<and> degenerate c"
  have "\<forall>i. 1 \<le> i \<and> i < 1 + MAX_ROUNDS
             \<longrightarrow> (\<exists>c. complete_at e i = Inr c \<and> degenerate c)"
    using a by (auto simp: MAX_ROUNDS_def)
  from degenerate_rounds [OF this]
  show "orchestrator_run e ts intent
           = Inr (\<lparr>or_intent = intent, or_final_answer = None,
                   or_status = lit ''max_rounds_exceeded'', or_rounds = 8,
                   or_tool_runs = [], or_cited_turn_ids = [], or_histogram = None\<rparr>,
                  ts)"
    by (simp add: orchestrator_run_def MAX_ROUNDS_def)
next
  assume a: "(\<forall>i. round_idx \<le> i \<and> i < round_idx + k
             \<longrightarrow> (\<exists>c. complete_at e i = Inr c \<and> degenerate c))
        \<and> k < n \<and> complete_at e (round_idx + k) = Inr c' \<and> tool_calls_of c' = []
        \<and> strip (case am_content (extract_message c') of None \<Rightarrow> [] | Some t \<Rightarrow> t) \<noteq> []"
  then have "\<forall>i. round_idx \<le> i \<and> i < round_idx + k
             \<longrightarrow> (\<exists>c. complete_at e i = Inr c \<and> degenerate c)"
    and "k < n" and "complete_at e (round_idx + k) = Inr c'" and "tool_calls_of c' = []"
    and "strip (case am_content (extract_message c') of None \<Rightarrow> [] | Some t \<Rightarrow> t) \<noteq> []"
    by blast+
  then show "run_rounds e intent n round_idx st
           = (case cited_turn_ids (ls_tool_runs st) of
                Inl err \<Rightarrow> Inl err
              | Inr cited \<Rightarrow>
                  Inr (\<lparr>or_intent = intent,
                        or_final_answer =
                          Some (strip (case am_content (extract_message c') of
                                         None \<Rightarrow> [] | Some t \<Rightarrow> t)),
                        or_status = lit ''completed'', or_rounds = round_idx + k,
                        or_tool_runs = ls_tool_runs st, or_cited_turn_ids = cited,
                        or_histogram = ls_histogram st\<rparr>,
                       ls_tools st))"
    by (rule degenerate_rounds_answer)
next
  assume a: "(\<forall>i. 1 \<le> i \<and> i < 1 + k \<longrightarrow> (\<exists>c. complete_at e i = Inr c \<and> degenerate c))
        \<and> k < 8 \<and> complete_at e (1 + k) = Inr c' \<and> tool_calls_of c' = []
        \<and> strip (case am_content (extract_message c') of None \<Rightarrow> [] | Some t \<Rightarrow> t) \<noteq> []"
  then have "\<forall>i. 1 \<le> i \<and> i < 1 + k \<longrightarrow> (\<exists>c. complete_at e i = Inr c \<and> degenerate c)"
    and "k < MAX_ROUNDS" and "complete_at e (1 + k) = Inr c'" and "tool_calls_of c' = []"
    and "strip (case am_content (extract_message c') of None \<Rightarrow> [] | Some t \<Rightarrow> t) \<noteq> []"
    by (simp_all add: MAX_ROUNDS_def)
  from degenerate_rounds_answer [OF this]
  show "orchestrator_run e ts intent
           = Inr (\<lparr>or_intent = intent,
                   or_final_answer =
                     Some (strip (case am_content (extract_message c') of
                                    None \<Rightarrow> [] | Some t \<Rightarrow> t)),
                   or_status = lit ''completed'', or_rounds = 1 + k,
                   or_tool_runs = [], or_cited_turn_ids = [], or_histogram = None\<rparr>,
                  ts)"
    by (simp add: orchestrator_run_def)
qed

text \<open>
  The theorem at the gateway that sends two spaces in every round, and at the one that
  sends two spaces in the first round and an answer in the second.
\<close>

theorem degenerate_round_consumed_witness:
  "degenerate demo_blank
   \<and> complete_at blank_env 1 = Inr demo_blank
   \<and> run_rounds blank_env (lit ''q'') 8 1
       \<lparr>ls_messages = [], ls_tool_runs = [], ls_histogram = None, ls_parsed_args = None,
        ls_tools = \<lparr>hydrated = 0\<rparr>\<rparr>
     = run_rounds blank_env (lit ''q'') 7 2
       \<lparr>ls_messages = [AssistantMessage (Some (lit ''  '')) None], ls_tool_runs = [],
        ls_histogram = None, ls_parsed_args = None, ls_tools = \<lparr>hydrated = 0\<rparr>\<rparr>
   \<and> orchestrator_run blank_env \<lparr>hydrated = 0\<rparr> (lit ''q'')
       = Inr (\<lparr>or_intent = lit ''q'', or_final_answer = None,
               or_status = lit ''max_rounds_exceeded'', or_rounds = 8,
               or_tool_runs = [], or_cited_turn_ids = [], or_histogram = None\<rparr>,
              \<lparr>hydrated = 0\<rparr>)
   \<and> complete_at blank_then_answer_env 1 = Inr demo_blank
   \<and> complete_at blank_then_answer_env 2 = Inr demo_answer
   \<and> orchestrator_run blank_then_answer_env \<lparr>hydrated = 0\<rparr> (lit ''q'')
       = Inr (\<lparr>or_intent = lit ''q'', or_final_answer = Some (lit ''done''),
               or_status = lit ''completed'', or_rounds = 2,
               or_tool_runs = [], or_cited_turn_ids = [], or_histogram = None\<rparr>,
              \<lparr>hydrated = 0\<rparr>)"
proof -
  have b: "complete_at blank_env i = Inr demo_blank" for i
    by (simp add: blank_env_def)
  note t = degenerate_round_consumed [of blank_env 1 demo_blank "lit ''q''" 7
      "\<lparr>ls_messages = [], ls_tool_runs = [], ls_histogram = None, ls_parsed_args = None,
        ls_tools = \<lparr>hydrated = 0\<rparr>\<rparr>" 8 "\<lparr>hydrated = 0\<rparr>"]
  have m: "extract_message demo_blank = \<lparr>am_content = Some (lit ''  ''), am_tool_calls = None\<rparr>"
    by (simp add: extract_message_def demo_blank_def)
  have s: "Suc 7 = 8" "Suc 1 = 2"
    by simp_all
  have one: "run_rounds blank_env (lit ''q'') 8 1
       \<lparr>ls_messages = [], ls_tool_runs = [], ls_histogram = None, ls_parsed_args = None,
        ls_tools = \<lparr>hydrated = 0\<rparr>\<rparr>
     = run_rounds blank_env (lit ''q'') 7 2
       \<lparr>ls_messages = [AssistantMessage (Some (lit ''  '')) None], ls_tool_runs = [],
        ls_histogram = None, ls_parsed_args = None, ls_tools = \<lparr>hydrated = 0\<rparr>\<rparr>"
    using t [THEN conjunct1] b [of 1] demo_blank_degenerate unfolding m s by simp
  have two: "orchestrator_run blank_env \<lparr>hydrated = 0\<rparr> (lit ''q'')
       = Inr (\<lparr>or_intent = lit ''q'', or_final_answer = None,
               or_status = lit ''max_rounds_exceeded'', or_rounds = 8,
               or_tool_runs = [], or_cited_turn_ids = [], or_histogram = None\<rparr>,
              \<lparr>hydrated = 0\<rparr>)"
    using t [THEN conjunct2, THEN conjunct2, THEN conjunct1] b demo_blank_degenerate by blast
  have c: "complete_at blank_then_answer_env 1 = Inr demo_blank"
      "complete_at blank_then_answer_env 2 = Inr demo_answer"
    by (simp_all add: blank_then_answer_env_def)
  have pre: "\<forall>i. 1 \<le> i \<and> i < 1 + (1::nat)
      \<longrightarrow> (\<exists>c. complete_at blank_then_answer_env i = Inr c \<and> degenerate c)"
    using c(1) demo_blank_degenerate by (auto simp: blank_then_answer_env_def)
  note u = degenerate_round_consumed [of blank_then_answer_env 1 demo_blank "lit ''q''" 7
      "\<lparr>ls_messages = [], ls_tool_runs = [], ls_histogram = None, ls_parsed_args = None,
        ls_tools = \<lparr>hydrated = 0\<rparr>\<rparr>" 8 "\<lparr>hydrated = 0\<rparr>" 1 demo_answer,
      THEN conjunct2, THEN conjunct2, THEN conjunct2, THEN conjunct2]
  have three: "orchestrator_run blank_then_answer_env \<lparr>hydrated = 0\<rparr> (lit ''q'')
           = Inr (\<lparr>or_intent = lit ''q'',
                   or_final_answer =
                     Some (strip (case am_content (extract_message demo_answer) of
                                    None \<Rightarrow> [] | Some t \<Rightarrow> t)),
                   or_status = lit ''completed'', or_rounds = 1 + 1,
                   or_tool_runs = [], or_cited_turn_ids = [], or_histogram = None\<rparr>,
                  \<lparr>hydrated = 0\<rparr>)"
    by (rule u [rule_format]) (use pre c demo_answer_text in \<open>simp_all add: numeral_2_eq_2\<close>)
  have four: "orchestrator_run blank_then_answer_env \<lparr>hydrated = 0\<rparr> (lit ''q'')
       = Inr (\<lparr>or_intent = lit ''q'', or_final_answer = Some (lit ''done''),
               or_status = lit ''completed'', or_rounds = 2,
               or_tool_runs = [], or_cited_turn_ids = [], or_histogram = None\<rparr>,
              \<lparr>hydrated = 0\<rparr>)"
    using three unfolding demo_answer_text by simp
  from one two four c b [of 1] demo_blank_degenerate show ?thesis
    by (intro conjI)
qed

end
